theory Spec2Isabelle
  imports Complex_Main "HOL-Library.Word" "HOL-Library.AList"
begin

section \<open>Binary64 arithmetic\<close>

text \<open>
  The ratio, the timestamps and the sleep durations of \<open>main.py\<close> are Python floats
  (IEEE 754 binary64, round to nearest, ties to even). A finite double is modelled by the
  rational number it denotes, and an operation by the exact operation followed by rounding
  to 53 significant bits. The exponent range of binary64 is not modelled: every quantity of
  the monitor (pixel counts, ratios in 0..100, clock readings, millisecond settings) lies far
  inside it. Signed zeros are identified.
\<close>

text \<open>\<open>bit_length n\<close> is the number of binary digits of a positive integer.\<close>

function bit_length :: "int \<Rightarrow> int" where
  "bit_length n = (if n \<le> 0 then 0 else 1 + bit_length (n div 2))"
  by pat_completeness auto
termination
  by (relation "measure nat") auto

declare bit_length.simps [simp del]

text \<open>The exponent \<open>e\<close> with \<open>2 ^ e \<le> q < 2 ^ (e + 1)\<close>, for positive \<open>q\<close>.\<close>

definition binade :: "rat \<Rightarrow> int" where
  "binade q =
     (let (a, b) = quotient_of q;
          e0 = bit_length a - bit_length b
      in if q < 2 powi e0 then e0 - 1 else e0)"

definition round_half_even :: "rat \<Rightarrow> int" where
  "round_half_even x =
     (let f = \<lfloor>x\<rfloor>; d = x - of_int f
      in if d < 1 / 2 then f
         else if 1 / 2 < d then f + 1
         else if even f then f else f + 1)"

definition round_f64 :: "rat \<Rightarrow> rat" where
  "round_f64 q =
     (if q = 0 then 0
      else let u = 2 powi (binade \<bar>q\<bar> - 52)
           in sgn q * of_int (round_half_even (\<bar>q\<bar> / u)) * u)"

text \<open>Python's \<open>float(n)\<close> for an integer, and the four operations on finite doubles.\<close>

definition f64_of_int :: "int \<Rightarrow> rat" where
  "f64_of_int n = round_f64 (of_int n)"

definition f64_sub :: "rat \<Rightarrow> rat \<Rightarrow> rat" where
  "f64_sub x y = round_f64 (x - y)"

definition f64_mul :: "rat \<Rightarrow> rat \<Rightarrow> rat" where
  "f64_mul x y = round_f64 (x * y)"

definition f64_div :: "rat \<Rightarrow> rat \<Rightarrow> rat" where
  "f64_div x y = round_f64 (x / y)"

text \<open>
  A numpy \<open>float64\<close> scalar can also be infinite or not a number: numpy does not raise on
  a zero divisor, it warns and returns \<open>inf\<close> or \<open>nan\<close>.
\<close>

datatype np_float64 = Finite rat | PosInf | NegInf | NaN

text \<open>\<open>a / b\<close> for two numpy integers: both are converted to double, then divided.\<close>

definition np_true_divide :: "int \<Rightarrow> int \<Rightarrow> np_float64" where
  "np_true_divide a b =
     (let x = f64_of_int a; y = f64_of_int b
      in if y = 0 then (if x = 0 then NaN else if 0 < x then PosInf else NegInf)
         else Finite (f64_div x y))"

text \<open>\<open>x * c\<close> for a numpy double and a finite Python number \<open>c\<close>.\<close>

fun np_multiply :: "np_float64 \<Rightarrow> rat \<Rightarrow> np_float64" where
  "np_multiply (Finite x) c = Finite (f64_mul x c)"
| "np_multiply PosInf c = (if c = 0 then NaN else if 0 < c then PosInf else NegInf)"
| "np_multiply NegInf c = (if c = 0 then NaN else if 0 < c then NegInf else PosInf)"
| "np_multiply NaN c = NaN"

text \<open>\<open>x >= c\<close> for a numpy double and a finite Python number: false on \<open>nan\<close>.\<close>

fun np_greater_equal :: "np_float64 \<Rightarrow> rat \<Rightarrow> bool" where
  "np_greater_equal (Finite x) c = (c \<le> x)"
| "np_greater_equal PosInf c = True"
| "np_greater_equal NegInf c = False"
| "np_greater_equal NaN c = False"

section \<open>Configuration and frames\<close>

text \<open>
  The configuration as the monitor reads it. The field names are the keys of
  \<open>config.json\<close>, the keys of the two nested groups carrying the name of their group
  as a prefix, and the key \<open>press_key\<close> being \<open>press_key_name\<close>, since \<open>press_key\<close> is
  the method. The millisecond settings and the tolerance are integers, as in the defaults
  and as the settings window stores them; the threshold is a float. The three hotkey
  bindings are not read by the monitor and are left out.
\<close>

record region =
  region_left :: int
  region_top :: int
  region_width :: int
  region_height :: int

record color =
  color_r :: int
  color_g :: int
  color_b :: int

record config =
  monitor_region :: region
  target_color :: color
  color_tolerance :: int
  threshold_percentage :: rat
  press_key_name :: string
  press_delay_ms :: int
  cooldown_ms :: int
  check_interval_ms :: int

text \<open>
  A frame is a numpy array of shape \<open>(H, W, 3)\<close> with 8-bit channels; a mask is a boolean
  array of shape \<open>(H, W)\<close>. Both are kept as the two leading dimensions and the cells in
  row-major order.
\<close>

type_synonym u8 = "8 word"

type_synonym pixel = "u8 \<times> u8 \<times> u8"

record 'a ndarray =
  shape0 :: nat
  shape1 :: nat
  cells :: "'a list"

definition well_shaped :: "'a ndarray \<Rightarrow> bool" where
  "well_shaped a = (length (cells a) = shape0 a * shape1 a)"

section \<open>check\_color\_match\<close>

text \<open>
  \<open>target_rgb\<close> is an array of numpy's default integer type (64 bits), so
  \<open>img - target_rgb\<close> and \<open>np.abs\<close> are computed in 64-bit two's complement.
\<close>

definition wrap_i64 :: "int \<Rightarrow> int" where
  "wrap_i64 x = (x + 2 ^ 63) mod 2 ^ 64 - 2 ^ 63"

definition channel_diff :: "int \<Rightarrow> u8 \<Rightarrow> int" where
  "channel_diff t c = wrap_i64 \<bar>wrap_i64 (uint c - t)\<bar>"

definition pixel_matches :: "color \<Rightarrow> int \<Rightarrow> pixel \<Rightarrow> bool" where
  "pixel_matches target tolerance p =
     (case p of (pr, pg, pb) \<Rightarrow>
        channel_diff (color_r target) pr \<le> tolerance \<and>
        channel_diff (color_g target) pg \<le> tolerance \<and>
        channel_diff (color_b target) pb \<le> tolerance)"

definition total_pixels :: "'a ndarray \<Rightarrow> int" where
  "total_pixels img = int (shape0 img) * int (shape1 img)"

definition matched_pixels :: "bool ndarray \<Rightarrow> int" where
  "matched_pixels match_mask = int (length (filter (\<lambda>m. m) (cells match_mask)))"

definition check_color_match :: "config \<Rightarrow> pixel ndarray \<Rightarrow> np_float64 \<times> bool ndarray" where
  "check_color_match cfg img =
     (let target = target_color cfg;
          tolerance = color_tolerance cfg;
          match_mask = \<lparr>shape0 = shape0 img, shape1 = shape1 img,
                  cells = map (pixel_matches target tolerance) (cells img)\<rparr>;
          percentage =
            np_multiply (np_true_divide (matched_pixels match_mask) (total_pixels img)) 100
      in (percentage, match_mask))"

section \<open>The monitor\<close>

text \<open>
  The attributes of \<open>ScreenColorMonitor\<close>, with two more fields for what the methods do
  to the world: the timers started and not yet fired (each holds its delay in seconds), and
  the trace of sleeps, captures, key actions and log lines, oldest first.
\<close>

datatype error =
    FileNotFoundError | JSONDecodeError | UnicodeDecodeError | RecursionError
  | PermissionError | OSError
  | TypeError | AttributeError | KeyError
  | ScreenShotError | ControllerError

text \<open>What \<open>_execute_press\<close> hands to the keyboard controller.\<close>

datatype key = KeyStr string | Key_space | Key_shift | Key_ctrl

datatype event =
    Sleep rat
  | Grab region
  | Press key
  | Release key
  | StartTimer rat
  | PrintTriggered string int
  | PrintKeyError error
  | PrintMonitorError error

record monitor =
  config :: config
  is_running :: bool
  is_paused :: bool
  trigger_count :: int
  last_trigger_time :: rat
  detection_count :: int
  last_fps_check_time :: rat
  fps :: rat
  timers :: "rat list"
  events :: "event list"

text \<open>The state \<open>__init__\<close> leaves, given the configuration and the clock reading.\<close>

definition init_monitor :: "config \<Rightarrow> rat \<Rightarrow> monitor" where
  "init_monitor cfg now =
     \<lparr>config = cfg, is_running = False, is_paused = False,
      trigger_count = 0, last_trigger_time = 0,
      detection_count = 0, last_fps_check_time = now, fps = 0,
      timers = [], events = []\<rparr>"

text \<open>
  The keyboard is a collaborator: for each key, pressing it may raise, releasing it may
  raise, or both succeed.
\<close>

datatype key_outcome = Succeeds | PressRaises error | ReleaseRaises error

text \<open>What one pass through the body of the loop reads from the world, in program order.\<close>

record readings =
  perf_counter_start :: rat
  grab_result :: "error + pixel ndarray"
  time_at_fps :: rat
  time_at_press :: rat
  keyboard :: "key \<Rightarrow> key_outcome"
  perf_counter_end :: rat

text \<open>\<open>str.lower\<close>, on ASCII letters.\<close>

definition lower_char :: "char \<Rightarrow> char" where
  "lower_char c =
     (case map_of (zip ''ABCDEFGHIJKLMNOPQRSTUVWXYZ'' ''abcdefghijklmnopqrstuvwxyz'') c of
        None \<Rightarrow> c
      | Some l \<Rightarrow> l)"

definition lower :: "string \<Rightarrow> string" where
  "lower s = map lower_char s"

subsection \<open>\_execute\_press\<close>

text \<open>The key mapping, lines 135 to 149.\<close>

definition key_for :: "string \<Rightarrow> key" where
  "key_for key_str =
     (if length key_str = 1 then KeyStr key_str
      else if key_str = ''space'' then Key_space
      else if key_str = ''shift'' then Key_shift
      else if key_str = ''ctrl'' then Key_ctrl
      else KeyStr key_str)"

definition execute_press :: "(key \<Rightarrow> key_outcome) \<Rightarrow> monitor \<Rightarrow> monitor" where
  "execute_press kb s =
     (let key_str = lower (press_key_name (config s));
          k = key_for key_str
      in case kb k of
           PressRaises e \<Rightarrow> s\<lparr>events := events s @ [PrintKeyError e]\<rparr>
         | ReleaseRaises e \<Rightarrow> s\<lparr>events := events s @ [Press k, PrintKeyError e]\<rparr>
         | Succeeds \<Rightarrow>
             s\<lparr>trigger_count := trigger_count s + 1,
               events := events s @ [Press k, Release k,
                                     PrintTriggered key_str (trigger_count s + 1)]\<rparr>)"

subsection \<open>press\_key\<close>

text \<open>\<open>now\<close> is the reading of \<open>time.time()\<close>, in seconds.\<close>

definition press_key :: "rat \<Rightarrow> (key \<Rightarrow> key_outcome) \<Rightarrow> monitor \<Rightarrow> monitor" where
  "press_key now kb s =
     (let current_time = f64_mul now 1000;
          cooldown = cooldown_ms (config s)
      in if f64_sub current_time (last_trigger_time s) < of_int cooldown then s
         else
           let s1 = s\<lparr>last_trigger_time := current_time\<rparr>;
               delay_ms = press_delay_ms (config s1)
           in if 0 < delay_ms then
                let delay_s = f64_div (f64_of_int delay_ms) 1000
                in s1\<lparr>timers := timers s1 @ [delay_s],
                      events := events s1 @ [StartTimer delay_s]\<rparr>
              else execute_press kb s1)"

text \<open>
  A started timer fires on a thread of its own and runs \<open>_execute_press\<close>;
  \<open>timer_fires i\<close> is the firing of the \<open>i\<close>-th pending timer.
\<close>

definition timer_fires :: "nat \<Rightarrow> (key \<Rightarrow> key_outcome) \<Rightarrow> monitor \<Rightarrow> monitor" where
  "timer_fires i kb s =
     (if i < length (timers s)
      then execute_press kb (s\<lparr>timers := take i (timers s) @ drop (Suc i) (timers s)\<rparr>)
      else s)"

subsection \<open>monitor\_loop\<close>

text \<open>The frame counter and the rate, lines 199 to 204.\<close>

definition update_fps :: "rat \<Rightarrow> monitor \<Rightarrow> monitor" where
  "update_fps current_time s =
     (let s1 = s\<lparr>detection_count := detection_count s + 1\<rparr>
      in if 1 \<le> f64_sub current_time (last_fps_check_time s1) then
           s1\<lparr>fps := f64_div (f64_of_int (detection_count s1))
                           (f64_sub current_time (last_fps_check_time s1)),
              detection_count := 0,
              last_fps_check_time := current_time\<rparr>
         else s1)"

text \<open>
  The pause at the end of a pass, lines 218 to 224: the seconds to sleep, or \<open>None\<close> when
  the loop goes on at once. \<open>now\<close> is the second reading of \<open>time.perf_counter()\<close>.
\<close>

definition time_to_wait :: "int \<Rightarrow> rat \<Rightarrow> rat \<Rightarrow> rat option" where
  "time_to_wait interval_ms loop_start_time now =
     (let target_interval = f64_div (f64_of_int interval_ms) 1000
      in if 0 < target_interval then
           let loop_duration = f64_sub now loop_start_time;
               wait = f64_sub target_interval loop_duration
           in if 0 < wait then Some wait else None
         else None)"

definition cadence :: "readings \<Rightarrow> monitor \<Rightarrow> monitor" where
  "cadence w s =
     (case time_to_wait (check_interval_ms (config s)) (perf_counter_start w)
             (perf_counter_end w) of
        None \<Rightarrow> s
      | Some d \<Rightarrow> s\<lparr>events := events s @ [Sleep d]\<rparr>)"

text \<open>The guarded part of a pass, lines 194 to 216.\<close>

definition sample :: "readings \<Rightarrow> monitor \<Rightarrow> monitor" where
  "sample w s =
     (let s0 = s\<lparr>events := events s @ [Grab (monitor_region (config s))]\<rparr>
      in case grab_result w of
           Inl e \<Rightarrow> s0\<lparr>events := events s0 @ [PrintMonitorError e, Sleep (round_f64 (1 / 10))]\<rparr>
         | Inr img \<Rightarrow>
             let s1 = update_fps (time_at_fps w) s0;
                 (percentage, match_mask) = check_color_match (config s1) img;
                 threshold = threshold_percentage (config s1)
             in if np_greater_equal percentage threshold
                then press_key (time_at_press w) (keyboard w) s1
                else s1)"

text \<open>One pass through the body of \<open>while self.is_running\<close>.\<close>

definition loop_iteration :: "readings \<Rightarrow> monitor \<Rightarrow> monitor" where
  "loop_iteration w s =
     (if is_paused s then s\<lparr>events := events s @ [Sleep (round_f64 (1 / 10))]\<rparr>
      else cadence w (sample w s))"

section \<open>Loading the configuration\<close>

text \<open>What \<open>json.load\<close> returns. A dict is the list of its items in insertion order.\<close>

datatype json =
    JNull | JBool bool | JInt int | JFloat rat | JStr string
  | JArr "json list" | JObj "(string \<times> json) list"

definition default_config :: "(string \<times> json) list" where
  "default_config =
     [(''monitor_region'', JObj [(''left'', JInt 100), (''top'', JInt 100),
                                 (''width'', JInt 200), (''height'', JInt 200)]),
      (''target_color'', JObj [(''r'', JInt 255), (''g'', JInt 0), (''b'', JInt 0)]),
      (''color_tolerance'', JInt 30),
      (''threshold_percentage'', JFloat 10),
      (''press_key'', JStr ''e''),
      (''press_delay_ms'', JInt 0),
      (''cooldown_ms'', JInt 100),
      (''check_interval_ms'', JInt 10),
      (''hotkey_start_stop'', JStr ''f9''),
      (''hotkey_pause_resume'', JStr ''f10''),
      (''hotkey_screenshot'', JStr ''f8'')]"

text \<open>
  \<open>config.json\<close>: absent; present but such that opening or parsing it raises the given
  exception (\<open>JSONDecodeError\<close> for text that is not JSON, \<open>UnicodeDecodeError\<close> for bytes
  that are not UTF-8, \<open>RecursionError\<close> for a document nested too deep,
  \<open>PermissionError\<close> for a file that may not be read); or holding the text of a value.
\<close>

datatype config_file = Absent | Unreadable error | Holds json

text \<open>Lines 71 and 72: \<open>open\<close> for reading, then \<open>json.load\<close>.\<close>

definition open_and_load :: "config_file \<Rightarrow> error + json" where
  "open_and_load f =
     (case f of Absent \<Rightarrow> Inl FileNotFoundError
              | Unreadable e \<Rightarrow> Inl e
              | Holds j \<Rightarrow> Inr j)"

text \<open>
  What writing \<open>config.json\<close> does, lines 90 and 91: it goes through, or it raises, and
  then the file is what the failed write leaves (the old file when \<open>open\<close> raised, a
  truncated one when \<open>json.dump\<close> did).
\<close>

datatype write_outcome = Written | WriteRaises error config_file

text \<open>\<open>save_config\<close> returns the exception raised, if any, and the file afterwards.\<close>

definition save_config :: "write_outcome \<Rightarrow> json \<Rightarrow> config_file \<Rightarrow> error option \<times> config_file" where
  "save_config w cfg f =
     (case w of Written \<Rightarrow> (None, Holds cfg)
              | WriteRaises e f' \<Rightarrow> (Some e, f'))"

text \<open>Python's \<open>k in s\<close> for two strings.\<close>

fun substring :: "string \<Rightarrow> string \<Rightarrow> bool" where
  "substring k [] = (k = [])"
| "substring k (c # cs) = (take (length k) (c # cs) = k \<or> substring k cs)"

text \<open>\<open>key in x\<close>, \<open>x[key] = value\<close>, \<open>x.get(key, d)\<close> and \<open>x[key]\<close> for a string key.\<close>

fun py_in :: "string \<Rightarrow> json \<Rightarrow> error + bool" where
  "py_in k (JObj kvs) = Inr (map_of kvs k \<noteq> None)"
| "py_in k (JArr xs) = Inr (JStr k \<in> set xs)"
| "py_in k (JStr s) = Inr (substring k s)"
| "py_in k JNull = Inl TypeError"
| "py_in k (JBool v) = Inl TypeError"
| "py_in k (JInt v) = Inl TypeError"
| "py_in k (JFloat v) = Inl TypeError"

fun py_setitem :: "json \<Rightarrow> string \<Rightarrow> json \<Rightarrow> error + json" where
  "py_setitem (JObj kvs) k v = Inr (JObj (AList.update k v kvs))"
| "py_setitem JNull k v = Inl TypeError"
| "py_setitem (JBool x) k v = Inl TypeError"
| "py_setitem (JInt x) k v = Inl TypeError"
| "py_setitem (JFloat x) k v = Inl TypeError"
| "py_setitem (JStr x) k v = Inl TypeError"
| "py_setitem (JArr x) k v = Inl TypeError"

fun py_get :: "json \<Rightarrow> string \<Rightarrow> json \<Rightarrow> error + json" where
  "py_get (JObj kvs) k d = Inr (case map_of kvs k of None \<Rightarrow> d | Some v \<Rightarrow> v)"
| "py_get JNull k d = Inl AttributeError"
| "py_get (JBool x) k d = Inl AttributeError"
| "py_get (JInt x) k d = Inl AttributeError"
| "py_get (JFloat x) k d = Inl AttributeError"
| "py_get (JStr x) k d = Inl AttributeError"
| "py_get (JArr x) k d = Inl AttributeError"

fun py_getitem :: "json \<Rightarrow> string \<Rightarrow> error + json" where
  "py_getitem (JObj kvs) k = (case map_of kvs k of None \<Rightarrow> Inl KeyError | Some v \<Rightarrow> Inr v)"
| "py_getitem JNull k = Inl TypeError"
| "py_getitem (JBool x) k = Inl TypeError"
| "py_getitem (JInt x) k = Inl TypeError"
| "py_getitem (JFloat x) k = Inl TypeError"
| "py_getitem (JStr x) k = Inl TypeError"
| "py_getitem (JArr x) k = Inl TypeError"

text \<open>
  The inner loop, lines 78 to 80. \<open>loaded_config[key][sub_key] = sub_value\<close> changes the
  nested dict in place: the changed dict is put back under \<open>key\<close>.
\<close>

fun backfill_group :: "string \<Rightarrow> (string \<times> json) list \<Rightarrow> json \<Rightarrow> error + json" where
  "backfill_group key [] loaded = Inr loaded"
| "backfill_group key ((sub_key, sub_value) # rest) loaded =
     (case py_get loaded key (JObj []) of
        Inl e \<Rightarrow> Inl e
      | Inr grp \<Rightarrow>
          (case py_in sub_key grp of
             Inl e \<Rightarrow> Inl e
           | Inr True \<Rightarrow> backfill_group key rest loaded
           | Inr False \<Rightarrow>
               (case py_getitem loaded key of
                  Inl e \<Rightarrow> Inl e
                | Inr nested \<Rightarrow>
                    (case py_setitem nested sub_key sub_value of
                       Inl e \<Rightarrow> Inl e
                     | Inr nested' \<Rightarrow>
                         (case py_setitem loaded key nested' of
                            Inl e \<Rightarrow> Inl e
                          | Inr loaded' \<Rightarrow> backfill_group key rest loaded')))))"

text \<open>The outer loop, lines 74 to 80.\<close>

fun backfill :: "(string \<times> json) list \<Rightarrow> json \<Rightarrow> error + json" where
  "backfill [] loaded = Inr loaded"
| "backfill ((key, value) # rest) loaded =
     (case py_in key loaded of
        Inl e \<Rightarrow> Inl e
      | Inr False \<Rightarrow>
          (case py_setitem loaded key value of
             Inl e \<Rightarrow> Inl e
           | Inr loaded' \<Rightarrow> backfill rest loaded')
      | Inr True \<Rightarrow>
          (case value of
             JObj items \<Rightarrow>
               (case backfill_group key items loaded of
                  Inl e \<Rightarrow> Inl e
                | Inr loaded' \<Rightarrow> backfill rest loaded')
           | _ \<Rightarrow> backfill rest loaded))"

text \<open>
  \<open>load_config\<close> returns the configuration or raises, and leaves the file as it was or
  rewritten. Only the two exceptions named in the \<open>except\<close> clause are caught; any
  other exception of the \<open>try\<close> block, and an exception of the write inside the handler,
  reach the caller. \<open>w\<close> is what the write does.
\<close>

definition load_config :: "write_outcome \<Rightarrow> config_file \<Rightarrow> (error + json) \<times> config_file" where
  "load_config w f =
     (case open_and_load f of
        Inr loaded_config \<Rightarrow> (backfill default_config loaded_config, f)
      | Inl e \<Rightarrow>
          if e = FileNotFoundError \<or> e = JSONDecodeError
          then (case save_config w (JObj default_config) f of
                  (Some e', f') \<Rightarrow> (Inl e', f')
                | (None, f') \<Rightarrow> (Inr (JObj default_config), f'))
          else (Inl e, f))"

section \<open>Auxiliary notions\<close>

text \<open>The target colours of the data model: every channel in 0..255.\<close>

definition valid_color :: "color \<Rightarrow> bool" where
  "valid_color c =
     (0 \<le> color_r c \<and> color_r c \<le> 255 \<and>
      0 \<le> color_g c \<and> color_g c \<le> 255 \<and>
      0 \<le> color_b c \<and> color_b c \<le> 255)"

text \<open>
  The ratio as a finite double, for a positive pixel count: the three roundings of
  \<open>(matched / total) * 100\<close>.
\<close>

definition percentage_of :: "int \<Rightarrow> int \<Rightarrow> rat" where
  "percentage_of m t = f64_mul (f64_div (f64_of_int m) (f64_of_int t)) 100"

text \<open>The order of IEEE 754 on numpy doubles: every comparison with \<open>nan\<close> is false.\<close>

fun np_less :: "np_float64 \<Rightarrow> np_float64 \<Rightarrow> bool" where
  "np_less NaN y = False"
| "np_less x NaN = False"
| "np_less PosInf y = False"
| "np_less x PosInf = True"
| "np_less x NegInf = False"
| "np_less NegInf y = True"
| "np_less (Finite a) (Finite b) = (a < b)"

fun np_less_equal :: "np_float64 \<Rightarrow> np_float64 \<Rightarrow> bool" where
  "np_less_equal NaN y = False"
| "np_less_equal x NaN = False"
| "np_less_equal x PosInf = True"
| "np_less_equal NegInf y = True"
| "np_less_equal PosInf y = False"
| "np_less_equal x NegInf = False"
| "np_less_equal (Finite a) (Finite b) = (a \<le> b)"

text \<open>
  A pixel within tolerance, in the words of the specification: all three absolute
  differences to the target are at most the tolerance.
\<close>

definition within_tolerance :: "color \<Rightarrow> int \<Rightarrow> pixel \<Rightarrow> bool" where
  "within_tolerance target t p =
     (case p of (pr, pg, pb) \<Rightarrow>
        \<bar>uint pr - color_r target\<bar> \<le> t \<and>
        \<bar>uint pg - color_g target\<bar> \<le> t \<and>
        \<bar>uint pb - color_b target\<bar> \<le> t)"

text \<open>The key \<open>_execute_press\<close> acts on, in a given state.\<close>

definition pressed_key :: "monitor \<Rightarrow> key" where
  "pressed_key s = key_for (lower (press_key_name (config s)))"

text \<open>The cooldown test of \<open>press_key\<close>, line 162: true when the invocation is dropped.\<close>

definition in_cooldown :: "rat \<Rightarrow> monitor \<Rightarrow> bool" where
  "in_cooldown now s =
     (f64_sub (f64_mul now 1000) (last_trigger_time s) < of_int (cooldown_ms (config s)))"

text \<open>A sequence of invocations of \<open>press_key\<close>, at the given clock readings.\<close>

fun press_key_all :: "rat list \<Rightarrow> (key \<Rightarrow> key_outcome) \<Rightarrow> monitor \<Rightarrow> monitor" where
  "press_key_all [] kb s = s"
| "press_key_all (now # rest) kb s = press_key_all rest kb (press_key now kb s)"

text \<open>
  The debounce rule: of a sequence of timestamps in milliseconds, those at least
  \<open>c\<close> ms after the last accepted one, the difference taken in double precision;
  \<open>prev\<close> is the last accepted timestamp so far.
\<close>

fun debounce :: "int \<Rightarrow> rat \<Rightarrow> rat list \<Rightarrow> rat list" where
  "debounce c prev [] = []"
| "debounce c prev (t # ts) =
     (if of_int c \<le> f64_sub t prev then t # debounce c t ts else debounce c prev ts)"

text \<open>Members of a loaded configuration, at the top level and inside a group.\<close>

fun member :: "json \<Rightarrow> string \<Rightarrow> json option" where
  "member (JObj kvs) k = map_of kvs k"
| "member JNull k = None"
| "member (JBool x) k = None"
| "member (JInt x) k = None"
| "member (JFloat x) k = None"
| "member (JStr x) k = None"
| "member (JArr x) k = None"

definition nested_member :: "json \<Rightarrow> string \<Rightarrow> string \<Rightarrow> json option" where
  "nested_member j g k = (case member j g of None \<Rightarrow> None | Some grp \<Rightarrow> member grp k)"

fun is_dict :: "json \<Rightarrow> bool" where
  "is_dict (JObj kvs) = True"
| "is_dict JNull = False"
| "is_dict (JBool x) = False"
| "is_dict (JInt x) = False"
| "is_dict (JFloat x) = False"
| "is_dict (JStr x) = False"
| "is_dict (JArr x) = False"

text \<open>
  A configuration record: a dict in which each group of the defaults, where present, is
  a dict again.
\<close>

definition config_record :: "(string \<times> json) list \<Rightarrow> json \<Rightarrow> bool" where
  "config_record defaults j =
     (is_dict j \<and>
      (\<forall>(g, d) \<in> set defaults.
         is_dict d \<longrightarrow> (case member j g of None \<Rightarrow> True | Some v \<Rightarrow> is_dict v)))"

text \<open>
  Backfilling, in the words of the specification. A group \<open>sub'\<close> fills \<open>sub\<close> from
  \<open>items\<close> when it agrees with \<open>sub\<close> on the keys present there and with the
  defaults on the others. An entry of the merged record is right when an absent key has
  the default, a present group is filled, and any other present key is as loaded.
\<close>

definition fills ::
  "(string \<times> json) list \<Rightarrow> (string \<times> json) list \<Rightarrow> (string \<times> json) list \<Rightarrow> bool" where
  "fills items sub sub' =
     (\<forall>k. map_of sub' k = (case map_of sub k of Some v \<Rightarrow> Some v | None \<Rightarrow> map_of items k))"

definition entry_backfilled :: "json option \<Rightarrow> json option \<Rightarrow> json option \<Rightarrow> bool" where
  "entry_backfilled dflt loaded res =
     (case dflt of
        None \<Rightarrow> res = loaded
      | Some d \<Rightarrow>
          (case loaded of
             None \<Rightarrow> res = Some d
           | Some v \<Rightarrow>
               if is_dict d
               then \<exists>items sub sub'. d = JObj items \<and> v = JObj sub \<and>
                      res = Some (JObj sub') \<and> fills items sub sub'
               else res = Some v))"

text \<open>A keyboard on which every key action succeeds, and one on which every press raises.\<close>

definition working_keyboard :: "key \<Rightarrow> key_outcome" where
  "working_keyboard k = Succeeds"

definition broken_keyboard :: "key \<Rightarrow> key_outcome" where
  "broken_keyboard k = PressRaises ControllerError"

text \<open>A keyboard on which every press succeeds and every release raises.\<close>

definition sticky_keyboard :: "key \<Rightarrow> key_outcome" where
  "sticky_keyboard k = ReleaseRaises ControllerError"

text \<open>
  The key actions carried out in a trace. A key action is a press and its release,
  lines 136 to 149; it is complete when the release has returned.
\<close>

fun completes_key_action :: "event \<Rightarrow> bool" where
  "completes_key_action (Release k) = True"
| "completes_key_action (Press k) = False"
| "completes_key_action (Sleep d) = False"
| "completes_key_action (Grab r) = False"
| "completes_key_action (StartTimer d) = False"
| "completes_key_action (PrintTriggered k n) = False"
| "completes_key_action (PrintKeyError e) = False"
| "completes_key_action (PrintMonitorError e) = False"

definition key_actions :: "event list \<Rightarrow> nat" where
  "key_actions es = length (filter completes_key_action es)"

text \<open>A frame of 10 by 10 pixels, 29 of them pure red and 71 pure blue.\<close>

definition frame_29_of_100 :: "pixel ndarray" where
  "frame_29_of_100 =
     \<lparr>shape0 = 10, shape1 = 10,
      cells = replicate 29 (255, 0, 0) @ replicate 71 (0, 0, 255)\<rparr>"

text \<open>The default configuration, as the monitor reads it.\<close>

definition default_settings :: config where
  "default_settings =
     \<lparr>monitor_region = \<lparr>region_left = 100, region_top = 100,
                         region_width = 200, region_height = 200\<rparr>,
      target_color = \<lparr>color_r = 255, color_g = 0, color_b = 0\<rparr>,
      color_tolerance = 30,
      threshold_percentage = 10,
      press_key_name = ''e'',
      press_delay_ms = 0,
      cooldown_ms = 100,
      check_interval_ms = 10\<rparr>"

section \<open>Properties of the rounding\<close>

lemma bit_length_bounds:
  "0 < n \<Longrightarrow> 1 \<le> bit_length n \<and> 2 ^ nat (bit_length n - 1) \<le> n \<and> n < 2 ^ nat (bit_length n)"
proof (induction n rule: bit_length.induct)
  case (1 n)
  show ?case
  proof (cases "n div 2 = 0")
    case True
    with "1.prems" have n1: "n = 1" by presburger
    have "bit_length (1 div 2) = 0" by (simp add: bit_length.simps)
    then have "bit_length 1 = 1" using bit_length.simps [of 1] by simp
    with n1 show ?thesis by simp
  next
    case False
    with "1.prems" have pos: "0 < n div 2" by presburger
    define k where "k = bit_length (n div 2)"
    from "1.IH" "1.prems" pos
    have ih: "1 \<le> k" "2 ^ nat (k - 1) \<le> n div 2" "n div 2 < 2 ^ nat k"
      by (simp_all add: k_def)
    have bl: "bit_length n = 1 + k"
      using "1.prems" bit_length.simps [of n] by (simp add: k_def)
    have e1: "nat k = Suc (nat (k - 1))" using ih(1) by simp
    have e2: "nat (1 + k) = Suc (nat k)" using ih(1) by simp
    have "2 * 2 ^ nat (k - 1) \<le> n" using ih(2) by presburger
    then have "2 ^ nat k \<le> n" by (simp add: e1)
    moreover have "n < 2 * 2 ^ nat k" using ih(3) by presburger
    ultimately show ?thesis using ih(1) by (simp add: bl e2)
  qed
qed

lemma powi_two_of_int:
  "0 \<le> k \<Longrightarrow> (2::rat) powi k = of_int (2 ^ nat k)"
  by (simp add: power_int_nonneg_exp)

lemma binade_bounds:
  assumes "0 < q"
  shows "2 powi (binade q) \<le> q \<and> q < 2 powi (binade q + 1)"
proof -
  obtain a b where ab: "quotient_of q = (a, b)" by (cases "quotient_of q")
  then have b: "0 < b" using quotient_of_denom_pos by blast
  have q: "q = of_int a / of_int b" using ab quotient_of_div by blast
  have a: "0 < a" using assms b q by (simp add: zero_less_divide_iff)
  define la lb where "la = bit_length a" and "lb = bit_length b"
  note A = bit_length_bounds [OF a, folded la_def]
  note B = bit_length_bounds [OF b, folded lb_def]
  have a_lo: "(2::rat) powi (la - 1) \<le> of_int a"
    using A by (simp add: powi_two_of_int del: of_int_power)
  have a_hi: "of_int a < (2::rat) powi la"
    using A by (simp add: powi_two_of_int del: of_int_power)
  have b_lo: "(2::rat) powi (lb - 1) \<le> of_int b"
    using B by (simp add: powi_two_of_int del: of_int_power)
  have b_hi: "of_int b < (2::rat) powi lb"
    using B by (simp add: powi_two_of_int del: of_int_power)
  have bq: "(0::rat) < of_int b" using b by simp
  have lo: "2 powi (la - lb - 1) < q"
  proof -
    have "2 powi (la - lb - 1) * of_int b < (2::rat) powi (la - lb - 1) * 2 powi lb"
      using b_hi by simp
    also have "\<dots> = 2 powi (la - 1)"
      by (simp add: power_int_add [symmetric])
    also have "\<dots> \<le> of_int a" by (rule a_lo)
    finally show ?thesis using bq by (simp add: q pos_less_divide_eq)
  qed
  have hi: "q < 2 powi (la - lb + 1)"
  proof -
    have "of_int a < (2::rat) powi la" by (rule a_hi)
    also have "\<dots> = 2 powi (la - lb + 1) * 2 powi (lb - 1)"
      by (simp add: power_int_add [symmetric])
    also have "\<dots> \<le> 2 powi (la - lb + 1) * of_int b"
      using b_lo by simp
    finally show ?thesis using bq by (simp add: q pos_divide_less_eq)
  qed
  have bin: "binade q = (if q < 2 powi (la - lb) then la - lb - 1 else la - lb)"
    by (simp add: binade_def ab la_def lb_def)
  show ?thesis
  proof (cases "q < 2 powi (la - lb)")
    case True
    then show ?thesis using lo by (simp add: bin)
  next
    case False
    then show ?thesis using hi by (simp add: bin)
  qed
qed


lemma round_half_even_lower: "\<lfloor>x\<rfloor> \<le> round_half_even x"
  by (simp add: round_half_even_def Let_def)

lemma round_half_even_upper: "round_half_even x \<le> \<lfloor>x\<rfloor> + 1"
  by (simp add: round_half_even_def Let_def)

lemma round_half_even_of_int [simp]: "round_half_even (of_int n) = n"
  by (simp add: round_half_even_def)

lemma round_half_even_mono:
  assumes "x \<le> y"
  shows "round_half_even x \<le> round_half_even y"
proof (cases "\<lfloor>x\<rfloor> = \<lfloor>y\<rfloor>")
  case True
  have "x - of_int \<lfloor>x\<rfloor> \<le> y - of_int \<lfloor>y\<rfloor>" using assms True by simp
  then show ?thesis using True by (auto simp: round_half_even_def Let_def)
next
  case False
  then have "\<lfloor>x\<rfloor> + 1 \<le> \<lfloor>y\<rfloor>" using floor_mono [OF assms] by simp
  then show ?thesis
    using round_half_even_upper [of x] round_half_even_lower [of y] by linarith
qed

lemma round_f64_pos:
  "0 < q \<Longrightarrow> round_f64 q =
     of_int (round_half_even (q / 2 powi (binade q - 52))) * 2 powi (binade q - 52)"
  by (simp add: round_f64_def Let_def)

lemma round_f64_minus: "round_f64 (- q) = - round_f64 q"
  by (simp add: round_f64_def Let_def sgn_minus)

lemma round_f64_zero [simp]: "round_f64 0 = 0"
  by (simp add: round_f64_def)

lemma powi_split52: "(2::rat) powi e = 2 powi 52 * 2 powi (e - 52)"
  by (simp add: power_int_add [symmetric] del: power_int_numeral)

lemma powi_split53: "(2::rat) powi (e + 1) = 2 powi 53 * 2 powi (e - 52)"
proof -
  have "e + 1 = 53 + (e - 52)" by simp
  then have "(2::rat) powi (e + 1) = 2 powi (53 + (e - 52))" by (simp only:)
  also have "\<dots> = 2 powi 53 * 2 powi (e - 52)" by (rule power_int_add) simp
  finally show ?thesis .
qed

lemma round_f64_pos_lower:
  assumes "0 < q"
  shows "2 powi (binade q) \<le> round_f64 q"
proof -
  define u :: rat where "u = 2 powi (binade q - 52)"
  have u: "0 < u" by (simp add: u_def)
  have "2 powi (binade q) \<le> q" using binade_bounds [OF assms] by simp
  then have "(2::rat) powi 52 * u \<le> q"
    using powi_split52 [of "binade q"] by (simp add: u_def del: power_int_numeral)
  then have "(of_int (2 ^ 52) :: rat) \<le> q / u" using u by (simp add: pos_le_divide_eq)
  then have "2 ^ 52 \<le> \<lfloor>q / u\<rfloor>" by (simp only: le_floor_iff)
  then have "2 ^ 52 \<le> round_half_even (q / u)"
    using round_half_even_lower [of "q / u"] by linarith
  then have "(of_int (2 ^ 52) :: rat) \<le> of_int (round_half_even (q / u))"
    by (simp only: of_int_le_iff)
  then have "(2::rat) powi 52 * u \<le> of_int (round_half_even (q / u)) * u"
    using u by simp
  then show ?thesis
    using powi_split52 [of "binade q"] round_f64_pos [OF assms]
    by (simp add: u_def del: power_int_numeral)
qed

lemma round_f64_pos_upper:
  assumes "0 < q"
  shows "round_f64 q \<le> 2 powi (binade q + 1)"
proof -
  define u :: rat where "u = 2 powi (binade q - 52)"
  have u: "0 < u" by (simp add: u_def)
  have "q < 2 powi (binade q + 1)" using binade_bounds [OF assms] by simp
  also have "\<dots> = 2 powi 53 * u"
    unfolding u_def by (rule powi_split53)
  finally have "q / u \<le> of_int (2 ^ 53)" using u by (simp add: pos_divide_le_eq)
  then have "round_half_even (q / u) \<le> 2 ^ 53"
    using round_half_even_mono [of "q / u" "of_int (2 ^ 53)"]
    by (simp only: round_half_even_of_int)
  then have "(of_int (round_half_even (q / u)) :: rat) \<le> of_int (2 ^ 53)"
    by (simp only: of_int_le_iff)
  then have "of_int (round_half_even (q / u)) * u \<le> (2::rat) powi 53 * u"
    using u by simp
  also have "\<dots> = 2 powi (binade q + 1)"
    unfolding u_def by (rule powi_split53 [symmetric])
  finally show ?thesis using round_f64_pos [OF assms] by (simp add: u_def)
qed

lemma binade_mono:
  assumes "0 < x" "x \<le> y"
  shows "binade x \<le> binade y"
proof -
  have "2 powi (binade x) \<le> x" using binade_bounds [OF assms(1)] by simp
  also have "x \<le> y" by fact
  also have "y < 2 powi (binade y + 1)" using binade_bounds [of y] assms by simp
  finally have lt: "(2::rat) powi (binade x) < 2 powi (binade y + 1)" .
  have "binade x < binade y + 1"
  proof (rule ccontr)
    assume "\<not> binade x < binade y + 1"
    then have "binade y + 1 \<le> binade x" by simp
    then have "(2::rat) powi (binade y + 1) \<le> 2 powi (binade x)"
      by (rule power_int_increasing) simp
    with lt show False by simp
  qed
  then show ?thesis by simp
qed


lemma round_f64_mono_pos:
  assumes "0 < x" "x \<le> y"
  shows "round_f64 x \<le> round_f64 y"
proof -
  have y: "0 < y" using assms by simp
  show ?thesis
  proof (cases "binade x = binade y")
    case True
    define u :: rat where "u = 2 powi (binade y - 52)"
    have u: "0 < u" by (simp add: u_def)
    have "x / u \<le> y / u" using assms(2) u by (simp add: divide_right_mono)
    then have "round_half_even (x / u) \<le> round_half_even (y / u)"
      by (rule round_half_even_mono)
    then have "(of_int (round_half_even (x / u)) :: rat) * u \<le> of_int (round_half_even (y / u)) * u"
      using u by simp
    then show ?thesis
      using round_f64_pos [OF assms(1)] round_f64_pos [OF y] True by (simp add: u_def)
  next
    case False
    then have "binade x + 1 \<le> binade y" using binade_mono [OF assms] by simp
    then have "(2::rat) powi (binade x + 1) \<le> 2 powi (binade y)"
      by (rule power_int_increasing) simp
    then show ?thesis
      using round_f64_pos_upper [OF assms(1)] round_f64_pos_lower [OF y] by linarith
  qed
qed

lemma round_f64_pos_iff: "0 < round_f64 q \<longleftrightarrow> 0 < q"
proof -
  have p: "0 < round_f64 r" if "0 < r" for r
  proof -
    have "(0::rat) < 2 powi (binade r)" by simp
    then show ?thesis using round_f64_pos_lower [OF that] by linarith
  qed
  show ?thesis
  proof (cases "0 < q")
    case True
    then show ?thesis using p by simp
  next
    case False
    show ?thesis
    proof (cases "q = 0")
      case True
      then show ?thesis by simp
    next
      case nz: False
      with False have "0 < - q" by simp
      then have "0 < round_f64 (- q)" by (rule p)
      then show ?thesis using False by (simp add: round_f64_minus)
    qed
  qed
qed

lemma round_f64_nonneg: "0 \<le> q \<Longrightarrow> 0 \<le> round_f64 q"
  using round_f64_pos_iff [of q] by (cases "q = 0") auto

lemma round_f64_neg_iff: "round_f64 q < 0 \<longleftrightarrow> q < 0"
  using round_f64_pos_iff [of "- q"] by (simp add: round_f64_minus)

lemma round_f64_mono:
  assumes "x \<le> y"
  shows "round_f64 x \<le> round_f64 y"
proof -
  consider "0 < x" | "x \<le> 0" "0 \<le> y" | "y < 0" using assms by linarith
  then show ?thesis
  proof cases
    case 1
    then show ?thesis using assms by (rule round_f64_mono_pos)
  next
    case 2
    have "round_f64 x \<le> 0" using 2(1) round_f64_pos_iff [of x] by simp
    moreover have "0 \<le> round_f64 y" using 2(2) by (rule round_f64_nonneg)
    ultimately show ?thesis by simp
  next
    case 3
    then have "0 < - y" "- y \<le> - x" using assms by simp_all
    then have "round_f64 (- y) \<le> round_f64 (- x)" by (rule round_f64_mono_pos)
    then show ?thesis by (simp add: round_f64_minus)
  qed
qed

lemma round_f64_exact:
  assumes "0 < q" "q / 2 powi (binade q - 52) = of_int n"
  shows "round_f64 q = q"
proof -
  have "round_f64 q = of_int n * 2 powi (binade q - 52)"
    using round_f64_pos [OF assms(1)] by (simp add: assms(2))
  also have "\<dots> = q" using assms(2) by (simp add: field_simps)
  finally show ?thesis .
qed

lemma round_f64_of_int:
  assumes "\<bar>n\<bar> \<le> 2 ^ 53"
  shows "round_f64 (of_int n) = of_int n"
proof -
  have pos: "round_f64 (of_int m) = of_int m" if m: "0 < m" "m \<le> 2 ^ 53" for m :: int
  proof (cases "m = 2 ^ 53")
    case True
    have "round_f64 (2 ^ 53) = 2 ^ 53" by code_simp
    then show ?thesis using True by simp
  next
    case False
    with m have lt: "m < 2 ^ 53" by simp
    define q :: rat where "q = of_int m"
    have q: "0 < q" using m by (simp add: q_def)
    have "2 powi (binade q) \<le> q" using binade_bounds [OF q] by simp
    also have "q < of_int (2 ^ 53)" unfolding q_def using lt by (simp only: of_int_less_iff)
    also have "(of_int (2 ^ 53) :: rat) = 2 powi 53" by simp
    finally have lt2: "(2::rat) powi (binade q) < 2 powi 53" .
    have b: "binade q \<le> 52"
    proof (rule ccontr)
      assume "\<not> binade q \<le> 52"
      then have "53 \<le> binade q" by simp
      then have "(2::rat) powi 53 \<le> 2 powi (binade q)"
        by (rule power_int_increasing) simp
      with lt2 show False by simp
    qed
    define k where "k = nat (52 - binade q)"
    have "(2::rat) powi (binade q - 52) = 2 powi (- int k)" using b by (simp add: k_def)
    also have "\<dots> = 1 / 2 ^ k" by (simp add: power_int_minus_divide)
    finally have "q / 2 powi (binade q - 52) = q * 2 ^ k" by simp
    also have "\<dots> = of_int (m * 2 ^ k)" by (simp add: q_def)
    finally have "round_f64 q = q" by (rule round_f64_exact [OF q])
    then show ?thesis by (simp only: q_def)
  qed
  consider "n = 0" | "0 < n" | "n < 0" by linarith
  then show ?thesis
  proof cases
    case 1
    then show ?thesis by simp
  next
    case 2
    then show ?thesis using assms pos by simp
  next
    case 3
    then have "round_f64 (of_int (- n)) = of_int (- n)" using assms pos [of "- n"] by simp
    then show ?thesis by (simp add: round_f64_minus)
  qed
qed

section \<open>The match ratio\<close>

lemma wrap_i64_id: "- (2 ^ 63) \<le> x \<Longrightarrow> x < 2 ^ 63 \<Longrightarrow> wrap_i64 x = x"
  by (simp add: wrap_i64_def)

lemma uint_u8_bounds: "0 \<le> uint (c :: u8) \<and> uint c \<le> 255"
  using uint_lt2p [of c] by simp

lemma channel_diff_int:
  fixes n t :: int
  assumes "0 \<le> n" "n \<le> 255" "0 \<le> t" "t \<le> 255"
  shows "wrap_i64 \<bar>wrap_i64 (n - t)\<bar> = \<bar>n - t\<bar>" and "\<bar>n - t\<bar> \<le> 255"
proof -
  have "wrap_i64 (n - t) = n - t" using assms by (intro wrap_i64_id) simp_all
  moreover have "wrap_i64 \<bar>n - t\<bar> = \<bar>n - t\<bar>" using assms by (intro wrap_i64_id) simp_all
  ultimately show "wrap_i64 \<bar>wrap_i64 (n - t)\<bar> = \<bar>n - t\<bar>" by simp
  show "\<bar>n - t\<bar> \<le> 255" using assms by simp
qed

lemma channel_diff_exact:
  assumes "0 \<le> t" "t \<le> 255"
  shows "channel_diff t c = \<bar>uint c - t\<bar>"
  unfolding channel_diff_def
  using uint_u8_bounds [of c] assms by (intro channel_diff_int) simp_all

lemma channel_diff_le_255:
  assumes "0 \<le> t" "t \<le> 255"
  shows "channel_diff t c \<le> 255"
  unfolding channel_diff_exact [OF assms]
  using uint_u8_bounds [of c] assms by (intro channel_diff_int) simp_all

lemma pixel_matches_mono:
  "t1 \<le> t2 \<Longrightarrow> pixel_matches target t1 p \<Longrightarrow> pixel_matches target t2 p"
  by (auto simp: pixel_matches_def split: prod.splits)

lemma pixel_matches_255:
  "valid_color target \<Longrightarrow> pixel_matches target 255 p"
  by (auto simp: pixel_matches_def valid_color_def channel_diff_le_255 split: prod.splits)

lemma f64_of_int_ge_1: "1 \<le> b \<Longrightarrow> 1 \<le> f64_of_int b"
proof -
  assume "1 \<le> b"
  then have "(1::rat) \<le> of_int b" by simp
  then have "round_f64 1 \<le> round_f64 (of_int b)" by (rule round_f64_mono)
  moreover have "round_f64 1 = 1" using round_f64_of_int [of 1] by simp
  ultimately show ?thesis by (simp add: f64_of_int_def)
qed

lemma f64_of_int_mono: "a \<le> b \<Longrightarrow> f64_of_int a \<le> f64_of_int b"
  by (simp add: f64_of_int_def round_f64_mono)

lemma f64_of_int_nonneg: "0 \<le> a \<Longrightarrow> 0 \<le> f64_of_int a"
  by (simp add: f64_of_int_def round_f64_nonneg)

lemma round_f64_1 [simp]: "round_f64 1 = 1"
  using round_f64_of_int [of 1] by simp

lemma round_f64_100 [simp]: "round_f64 100 = 100"
  using round_f64_of_int [of 100] by simp

lemma ratio_finite:
  "1 \<le> t \<Longrightarrow> np_multiply (np_true_divide m t) 100 = Finite (percentage_of m t)"
  using f64_of_int_ge_1 [of t] by (simp add: np_true_divide_def Let_def percentage_of_def)

lemma percentage_of_range:
  assumes "0 \<le> m" "m \<le> t" "1 \<le> t"
  shows "0 \<le> percentage_of m t \<and> percentage_of m t \<le> 100"
proof -
  define x y where "x = f64_of_int m" and "y = f64_of_int t"
  have y: "1 \<le> y" unfolding y_def using assms(3) by (rule f64_of_int_ge_1)
  have x: "0 \<le> x" unfolding x_def using assms(1) by (rule f64_of_int_nonneg)
  have xy: "x \<le> y" unfolding x_def y_def using assms(2) by (rule f64_of_int_mono)
  have d0: "0 \<le> x / y" using x y by simp
  have d1: "x / y \<le> 1" using xy y by simp
  have r0: "0 \<le> round_f64 (x / y)" using d0 by (rule round_f64_nonneg)
  have r1: "round_f64 (x / y) \<le> 1" using round_f64_mono [OF d1] by simp
  have "0 \<le> round_f64 (x / y) * 100" using r0 by simp
  then have lo: "0 \<le> round_f64 (round_f64 (x / y) * 100)" by (rule round_f64_nonneg)
  have "round_f64 (x / y) * 100 \<le> 100" using r1 by simp
  then have hi: "round_f64 (round_f64 (x / y) * 100) \<le> 100"
    using round_f64_mono [of "round_f64 (x / y) * 100" 100] by simp
  show ?thesis using lo hi
    by (simp add: percentage_of_def f64_mul_def f64_div_def x_def y_def)
qed

lemma percentage_of_mono:
  assumes "m1 \<le> m2" "1 \<le> t"
  shows "percentage_of m1 t \<le> percentage_of m2 t"
proof -
  define y where "y = f64_of_int t"
  have y: "0 < y" unfolding y_def using f64_of_int_ge_1 [OF assms(2)] by simp
  have "f64_of_int m1 \<le> f64_of_int m2" using assms(1) by (rule f64_of_int_mono)
  then have "f64_of_int m1 / y \<le> f64_of_int m2 / y" using y by (simp add: divide_right_mono)
  then have "round_f64 (f64_of_int m1 / y) \<le> round_f64 (f64_of_int m2 / y)"
    by (rule round_f64_mono)
  then have "round_f64 (f64_of_int m1 / y) * 100 \<le> round_f64 (f64_of_int m2 / y) * 100"
    by simp
  then have "round_f64 (round_f64 (f64_of_int m1 / y) * 100)
      \<le> round_f64 (round_f64 (f64_of_int m2 / y) * 100)"
    by (rule round_f64_mono)
  then show ?thesis by (simp add: percentage_of_def f64_mul_def f64_div_def y_def)
qed

lemma percentage_of_full:
  assumes "1 \<le> t"
  shows "percentage_of t t = 100"
proof -
  have "f64_of_int t \<noteq> 0" using f64_of_int_ge_1 [OF assms] by simp
  then show ?thesis by (simp add: percentage_of_def f64_mul_def f64_div_def)
qed

lemma fst_check_color_match:
  "fst (check_color_match cfg img) =
     np_multiply (np_true_divide
       (int (length (filter (pixel_matches (target_color cfg) (color_tolerance cfg)) (cells img))))
       (total_pixels img)) 100"
  by (simp add: check_color_match_def Let_def matched_pixels_def filter_map comp_def)

lemma count_le_total:
  "well_shaped img \<Longrightarrow> int (length (filter P (cells img))) \<le> total_pixels img"
proof -
  assume "well_shaped img"
  then have "total_pixels img = int (length (cells img))"
    by (simp add: well_shaped_def total_pixels_def)
  then show ?thesis by simp
qed

lemma total_pixels_pos: "0 < shape0 img * shape1 img \<Longrightarrow> 1 \<le> total_pixels img"
proof -
  assume "0 < shape0 img * shape1 img"
  then have "0 < int (shape0 img * shape1 img)" by (simp only: of_nat_0_less_iff)
  then show ?thesis by (simp add: total_pixels_def)
qed

text \<open>
  C7: for a frame with at least one pixel and a target colour with channels in 0..255, the
  ratio returned by \<open>check_color_match\<close> is a finite number between 0 and 100, and with
  tolerance 255 it is exactly 100.
\<close>

theorem ratio_in_range:
  assumes "well_shaped img" and "0 < shape0 img * shape1 img"
    and "valid_color (target_color cfg)"
  shows "(\<exists>q. fst (check_color_match cfg img) = Finite q \<and> 0 \<le> q \<and> q \<le> 100) \<and>
         (color_tolerance cfg = 255 \<longrightarrow> fst (check_color_match cfg img) = Finite 100)"
proof -
  define P where "P = pixel_matches (target_color cfg) (color_tolerance cfg)"
  define m where "m = int (length (filter P (cells img)))"
  have t: "1 \<le> total_pixels img" using assms(2) by (rule total_pixels_pos)
  have m: "0 \<le> m" "m \<le> total_pixels img"
    using count_le_total [OF assms(1), of P] by (simp_all add: m_def)
  have eq: "fst (check_color_match cfg img) = Finite (percentage_of m (total_pixels img))"
    using ratio_finite [OF t, of m] by (simp add: fst_check_color_match m_def P_def)
  have range: "0 \<le> percentage_of m (total_pixels img) \<and> percentage_of m (total_pixels img) \<le> 100"
    using m t by (rule percentage_of_range)
  have full: "fst (check_color_match cfg img) = Finite 100" if "color_tolerance cfg = 255"
  proof -
    have "filter P (cells img) = cells img"
      using that assms(3) by (simp add: P_def pixel_matches_255)
    then have "m = total_pixels img"
      using assms(1) by (simp add: m_def well_shaped_def total_pixels_def)
    then show ?thesis using eq percentage_of_full [OF t] by simp
  qed
  show ?thesis using eq range full by blast
qed

theorem ratio_in_range_witness:
  "well_shaped \<lparr>shape0 = 1, shape1 = 2, cells = [(255, 0, 0), (0, 0, 255 :: u8)]\<rparr> \<and>
   valid_color (target_color (default_settings\<lparr>color_tolerance := 255\<rparr>)) \<and>
   color_tolerance (default_settings\<lparr>color_tolerance := 255\<rparr>) = 255 \<and>
   fst (check_color_match (default_settings\<lparr>color_tolerance := 255\<rparr>)
          \<lparr>shape0 = 1, shape1 = 2, cells = [(255, 0, 0), (0, 0, 255 :: u8)]\<rparr>) = Finite 100"
  using ratio_in_range
    [of "\<lparr>shape0 = 1, shape1 = 2, cells = [(255, 0, 0), (0, 0, 255 :: u8)]\<rparr>"
        "default_settings\<lparr>color_tolerance := 255\<rparr>"]
  by (simp add: well_shaped_def valid_color_def default_settings_def)

lemma np_multiply_zero_divisor:
  "0 \<le> m \<Longrightarrow> np_multiply (np_true_divide m 0) 100 = (if m = 0 then NaN else PosInf)"
proof -
  assume "0 \<le> m"
  then have "0 \<le> f64_of_int m" by (rule f64_of_int_nonneg)
  moreover have "f64_of_int m = 0 \<longleftrightarrow> m = 0"
    using round_f64_pos_iff [of "of_int m"] round_f64_neg_iff [of "of_int m"]
    by (auto simp: f64_of_int_def)
  ultimately show ?thesis
    by (auto simp: np_true_divide_def Let_def f64_of_int_def)
qed

text \<open>
  C8: the ratio is monotone in the tolerance. For a fixed frame and target and
  \<open>t1 \<le> t2\<close>, the ratio at \<open>t2\<close> is never below the ratio at \<open>t1\<close>; on a frame with at
  least one pixel both are numbers and the first is at most the second.
\<close>

theorem ratio_monotone:
  assumes "t1 \<le> t2"
  shows "\<not> np_less (fst (check_color_match (cfg\<lparr>color_tolerance := t2\<rparr>) img))
                   (fst (check_color_match (cfg\<lparr>color_tolerance := t1\<rparr>) img)) \<and>
         (0 < shape0 img * shape1 img \<longrightarrow>
            np_less_equal (fst (check_color_match (cfg\<lparr>color_tolerance := t1\<rparr>) img))
                          (fst (check_color_match (cfg\<lparr>color_tolerance := t2\<rparr>) img)))"
proof -
  define m1 where "m1 = int (length (filter (pixel_matches (target_color cfg) t1) (cells img)))"
  define m2 where "m2 = int (length (filter (pixel_matches (target_color cfg) t2) (cells img)))"
  have sub: "length (filter (pixel_matches (target_color cfg) t1) (cells img))
      \<le> length (filter (pixel_matches (target_color cfg) t2) (cells img))"
  proof -
    have "filter (pixel_matches (target_color cfg) t1) (cells img)
        = filter (pixel_matches (target_color cfg) t1)
            (filter (pixel_matches (target_color cfg) t2) (cells img))"
      using pixel_matches_mono [OF assms] by (auto intro: filter_cong)
    then show ?thesis by (metis length_filter_le)
  qed
  then have m: "0 \<le> m1" "m1 \<le> m2" by (simp_all add: m1_def m2_def)
  have r1: "fst (check_color_match (cfg\<lparr>color_tolerance := t1\<rparr>) img)
      = np_multiply (np_true_divide m1 (total_pixels img)) 100"
    by (simp add: fst_check_color_match m1_def)
  have r2: "fst (check_color_match (cfg\<lparr>color_tolerance := t2\<rparr>) img)
      = np_multiply (np_true_divide m2 (total_pixels img)) 100"
    by (simp add: fst_check_color_match m2_def)
  have tp: "0 \<le> total_pixels img" by (simp add: total_pixels_def)
  show ?thesis
  proof (cases "1 \<le> total_pixels img")
    case True
    have "percentage_of m1 (total_pixels img) \<le> percentage_of m2 (total_pixels img)"
      using m(2) True by (rule percentage_of_mono)
    then show ?thesis by (simp add: r1 r2 ratio_finite [OF True])
  next
    case False
    with tp have z: "total_pixels img = 0" by simp
    then have e: "\<not> 0 < shape0 img * shape1 img" by (simp add: total_pixels_def)
    have "0 \<le> m2" using m by simp
    then show ?thesis using m e
      by (auto simp: r1 r2 z np_multiply_zero_divisor)
  qed
qed

theorem ratio_monotone_witness:
  "(10::int) \<le> 30 \<and>
   0 < shape0 \<lparr>shape0 = 1, shape1 = 2, cells = [(255, 0, 0), (0, 0, 255 :: u8)]\<rparr>
     * shape1 \<lparr>shape0 = 1, shape1 = 2, cells = [(255, 0, 0), (0, 0, 255 :: u8)]\<rparr> \<and>
   np_less_equal
     (fst (check_color_match (default_settings\<lparr>color_tolerance := 10\<rparr>)
        \<lparr>shape0 = 1, shape1 = 2, cells = [(255, 0, 0), (0, 0, 255 :: u8)]\<rparr>))
     (fst (check_color_match (default_settings\<lparr>color_tolerance := 30\<rparr>)
        \<lparr>shape0 = 1, shape1 = 2, cells = [(255, 0, 0), (0, 0, 255 :: u8)]\<rparr>))"
  using ratio_monotone
    [of 10 30 default_settings
        "\<lparr>shape0 = 1, shape1 = 2, cells = [(255, 0, 0), (0, 0, 255 :: u8)]\<rparr>"]
  by simp

text \<open>
  C10: \<open>check_color_match\<close> divides the number of matched pixels by \<open>H * W\<close>. When
  \<open>H\<close> and \<open>W\<close> are positive the divisor is not zero and the ratio is a finite number; on an
  empty frame the divisor is zero and the result is \<open>nan\<close>.
\<close>

theorem ratio_defined_iff_nonempty:
  "fst (check_color_match cfg img) =
     np_multiply (np_true_divide (matched_pixels (snd (check_color_match cfg img)))
                                 (total_pixels img)) 100 \<and>
   total_pixels img = int (shape0 img) * int (shape1 img) \<and>
   (0 < shape0 img \<and> 0 < shape1 img \<longrightarrow>
      total_pixels img \<noteq> 0 \<and> (\<exists>q. fst (check_color_match cfg img) = Finite q)) \<and>
   (well_shaped img \<and> (shape0 img = 0 \<or> shape1 img = 0) \<longrightarrow>
      total_pixels img = 0 \<and> fst (check_color_match cfg img) = NaN)"
proof -
  have a: "fst (check_color_match cfg img) =
     np_multiply (np_true_divide (matched_pixels (snd (check_color_match cfg img)))
                                 (total_pixels img)) 100"
    by (simp add: check_color_match_def Let_def)
  have b: "total_pixels img \<noteq> 0 \<and> (\<exists>q. fst (check_color_match cfg img) = Finite q)"
    if "0 < shape0 img \<and> 0 < shape1 img"
  proof -
    from that have "0 < shape0 img * shape1 img" by simp
    then have t: "1 \<le> total_pixels img" by (rule total_pixels_pos)
    then show ?thesis using ratio_finite [OF t] by (simp add: fst_check_color_match)
  qed
  have c: "total_pixels img = 0 \<and> fst (check_color_match cfg img) = NaN"
    if "well_shaped img \<and> (shape0 img = 0 \<or> shape1 img = 0)"
  proof -
    from that have z: "total_pixels img = 0" by (auto simp: total_pixels_def)
    from that have "cells img = []" by (auto simp: well_shaped_def)
    then show ?thesis using z np_multiply_zero_divisor [of 0]
      by (simp add: fst_check_color_match)
  qed
  show ?thesis using a b c by (simp add: total_pixels_def)
qed

theorem ratio_defined_iff_nonempty_witness:
  "(0 < shape0 \<lparr>shape0 = 1, shape1 = 2, cells = [(255, 0, 0), (0, 0, 255 :: u8)]\<rparr> \<and>
    0 < shape1 \<lparr>shape0 = 1, shape1 = 2, cells = [(255, 0, 0), (0, 0, 255 :: u8)]\<rparr>) \<and>
   (\<exists>q. fst (check_color_match default_settings
       \<lparr>shape0 = 1, shape1 = 2, cells = [(255, 0, 0), (0, 0, 255 :: u8)]\<rparr>) = Finite q) \<and>
   well_shaped \<lparr>shape0 = 0, shape1 = 2, cells = [] :: pixel list\<rparr> \<and>
   shape0 \<lparr>shape0 = 0, shape1 = 2, cells = [] :: pixel list\<rparr> = 0 \<and>
   fst (check_color_match default_settings
       \<lparr>shape0 = 0, shape1 = 2, cells = [] :: pixel list\<rparr>) = NaN"
  using ratio_defined_iff_nonempty
      [of default_settings "\<lparr>shape0 = 1, shape1 = 2, cells = [(255, 0, 0), (0, 0, 255 :: u8)]\<rparr>",
       THEN conjunct2, THEN conjunct2]
    ratio_defined_iff_nonempty
      [of default_settings "\<lparr>shape0 = 0, shape1 = 2, cells = [] :: pixel list\<rparr>",
       THEN conjunct2, THEN conjunct2]
  by (simp add: well_shaped_def)

section \<open>The trigger and the loop\<close>

lemma round_f64_numeral [simp]:
  "(numeral k :: int) \<le> 2 ^ 53 \<Longrightarrow> round_f64 (numeral k) = numeral k"
  using round_f64_of_int [of "numeral k"] by simp

lemma f64_of_int_pos_iff: "0 < f64_of_int n \<longleftrightarrow> 0 < n"
  by (simp add: f64_of_int_def round_f64_pos_iff)

lemma f64_div_pos_iff: "0 < c \<Longrightarrow> 0 < f64_div x c \<longleftrightarrow> 0 < x"
  by (simp add: f64_div_def round_f64_pos_iff zero_less_divide_iff)

lemma f64_sub_pos_iff: "0 < f64_sub x y \<longleftrightarrow> y < x"
  by (simp add: f64_sub_def round_f64_pos_iff)

lemma config_update_fps [simp]: "config (update_fps t s) = config s"
  by (simp add: update_fps_def Let_def)

lemma config_execute_press [simp]: "config (execute_press kb s) = config s"
  by (simp add: execute_press_def Let_def split: key_outcome.splits)

lemma config_press_key [simp]: "config (press_key now kb s) = config s"
  by (simp add: press_key_def Let_def)

lemma config_sample [simp]: "config (sample w s) = config s"
  by (simp add: sample_def Let_def split: sum.splits prod.splits)

lemma tenth: "round_f64 (1 / 10) = 3602879701896397 / 36028797018963968"
  by code_simp

text \<open>
  C9: when the paused flag is set at the top of a pass, the pass only sleeps the fixed
  slice of 0.1 s and restarts: no capture, no trigger, and the sampling statistics and the
  trigger state are left as they were.
\<close>

theorem paused_iteration:
  assumes "is_paused s"
  shows "loop_iteration w s = s\<lparr>events := events s @ [Sleep (round_f64 (1 / 10))]\<rparr> \<and>
         detection_count (loop_iteration w s) = detection_count s \<and>
         fps (loop_iteration w s) = fps s \<and>
         last_fps_check_time (loop_iteration w s) = last_fps_check_time s \<and>
         trigger_count (loop_iteration w s) = trigger_count s \<and>
         last_trigger_time (loop_iteration w s) = last_trigger_time s \<and>
         timers (loop_iteration w s) = timers s \<and>
         events (loop_iteration w s) = events s @ [Sleep (round_f64 (1 / 10))] \<and>
         \<bar>round_f64 (1 / 10) - 1 / 10\<bar> < 1 / 10 ^ 17"
  using assms by (simp add: loop_iteration_def tenth)

theorem paused_iteration_witness:
  "is_paused ((init_monitor default_settings 0)\<lparr>is_running := True, is_paused := True\<rparr>) \<and>
   events (loop_iteration
     \<lparr>perf_counter_start = 5, grab_result = Inl ScreenShotError, time_at_fps = 7,
      time_at_press = 7, keyboard = working_keyboard, perf_counter_end = 6\<rparr>
     ((init_monitor default_settings 0)\<lparr>is_running := True, is_paused := True\<rparr>))
   = [Sleep (round_f64 (1 / 10))]"
  using paused_iteration
    [of "(init_monitor default_settings 0)\<lparr>is_running := True, is_paused := True\<rparr>"
        "\<lparr>perf_counter_start = 5, grab_result = Inl ScreenShotError, time_at_fps = 7,
      time_at_press = 7, keyboard = working_keyboard, perf_counter_end = 6\<rparr>"]
  by (simp add: init_monitor_def)

text \<open>
  C6: the pause at the end of a pass that was not paused. With a check interval of zero
  there is no sleep; with a positive interval and an elapsed time below it, the loop sleeps
  the remainder; with an elapsed time of at least the interval there is no sleep. The
  interval is the setting divided by 1000 and the elapsed time the difference of the two
  readings of the performance counter, all in double precision as the source computes them.
\<close>

theorem cadence_sleep:
  "time_to_wait 0 start now = None \<and>
   (0 < i \<and> f64_sub now start < f64_div (f64_of_int i) 1000 \<longrightarrow>
      time_to_wait i start now
        = Some (f64_sub (f64_div (f64_of_int i) 1000) (f64_sub now start))) \<and>
   (0 < i \<and> f64_div (f64_of_int i) 1000 \<le> f64_sub now start \<longrightarrow>
      time_to_wait i start now = None) \<and>
   (\<not> is_paused s \<longrightarrow>
      loop_iteration w s =
        (case time_to_wait (check_interval_ms (config s)) (perf_counter_start w)
                (perf_counter_end w) of
           None \<Rightarrow> sample w s
         | Some d \<Rightarrow> (sample w s)\<lparr>events := events (sample w s) @ [Sleep d]\<rparr>))"
proof -
  have a: "time_to_wait 0 start now = None"
    by (simp add: time_to_wait_def f64_of_int_def f64_div_def)
  have pos: "0 < f64_div (f64_of_int i) 1000" if "0 < i"
    using that by (simp add: f64_div_pos_iff f64_of_int_pos_iff)
  have b: "time_to_wait i start now
        = Some (f64_sub (f64_div (f64_of_int i) 1000) (f64_sub now start))"
    if "0 < i \<and> f64_sub now start < f64_div (f64_of_int i) 1000"
    using that pos by (simp add: time_to_wait_def Let_def f64_sub_pos_iff)
  have c: "time_to_wait i start now = None"
    if "0 < i \<and> f64_div (f64_of_int i) 1000 \<le> f64_sub now start"
    using that pos by (simp add: time_to_wait_def Let_def f64_sub_pos_iff)
  have d: "loop_iteration w s =
        (case time_to_wait (check_interval_ms (config s)) (perf_counter_start w)
                (perf_counter_end w) of
           None \<Rightarrow> sample w s
         | Some d \<Rightarrow> (sample w s)\<lparr>events := events (sample w s) @ [Sleep d]\<rparr>)"
    if "\<not> is_paused s"
    using that by (simp add: loop_iteration_def cadence_def)
  show ?thesis using a b c d by blast
qed


theorem cadence_sleep_witness:
  "(0 :: int) < 10 \<and> f64_sub (5 + 1 / 256) 5 < f64_div (f64_of_int 10) 1000 \<and>
   time_to_wait 10 5 (5 + 1 / 256)
     = Some (f64_sub (f64_div (f64_of_int 10) 1000) (f64_sub (5 + 1 / 256) 5)) \<and>
   f64_div (f64_of_int 10) 1000 \<le> f64_sub 6 5 \<and>
   time_to_wait 10 5 6 = None \<and>
   \<not> is_paused (init_monitor default_settings 0) \<and>
   loop_iteration
     \<lparr>perf_counter_start = 5, grab_result = Inl ScreenShotError, time_at_fps = 7,
      time_at_press = 7, keyboard = working_keyboard, perf_counter_end = 6\<rparr>
     (init_monitor default_settings 0) =
   (case time_to_wait (check_interval_ms (config (init_monitor default_settings 0)))
           (perf_counter_start
              \<lparr>perf_counter_start = 5, grab_result = Inl ScreenShotError, time_at_fps = 7,
               time_at_press = 7, keyboard = working_keyboard, perf_counter_end = 6\<rparr>)
           (perf_counter_end
              \<lparr>perf_counter_start = 5, grab_result = Inl ScreenShotError, time_at_fps = 7,
               time_at_press = 7, keyboard = working_keyboard, perf_counter_end = 6\<rparr>) of
      None \<Rightarrow>
        sample
          \<lparr>perf_counter_start = 5, grab_result = Inl ScreenShotError, time_at_fps = 7,
           time_at_press = 7, keyboard = working_keyboard, perf_counter_end = 6\<rparr>
          (init_monitor default_settings 0)
    | Some d \<Rightarrow>
        (sample
          \<lparr>perf_counter_start = 5, grab_result = Inl ScreenShotError, time_at_fps = 7,
           time_at_press = 7, keyboard = working_keyboard, perf_counter_end = 6\<rparr>
          (init_monitor default_settings 0))
        \<lparr>events := events (sample
          \<lparr>perf_counter_start = 5, grab_result = Inl ScreenShotError, time_at_fps = 7,
           time_at_press = 7, keyboard = working_keyboard, perf_counter_end = 6\<rparr>
          (init_monitor default_settings 0)) @ [Sleep d]\<rparr>)"
proof -
  have h1: "f64_sub (5 + 1 / 256) 5 < f64_div (f64_of_int 10) 1000" by code_simp
  have h2: "f64_div (f64_of_int 10) 1000 \<le> f64_sub 6 5" by code_simp
  have h3: "\<not> is_paused (init_monitor default_settings 0)" by (simp add: init_monitor_def)
  have h4: "(0 :: int) < 10" by simp
  show ?thesis
    using cadence_sleep [of 5 "5 + 1 / 256" 10 "init_monitor default_settings 0"
        "\<lparr>perf_counter_start = 5, grab_result = Inl ScreenShotError, time_at_fps = 7,
          time_at_press = 7, keyboard = working_keyboard, perf_counter_end = 6\<rparr>"]
      cadence_sleep [of 5 6 10 "init_monitor default_settings 0"
        "\<lparr>perf_counter_start = 5, grab_result = Inl ScreenShotError, time_at_fps = 7,
          time_at_press = 7, keyboard = working_keyboard, perf_counter_end = 6\<rparr>"]
      h1 h2 h3 h4
    by blast
qed

lemma trigger_count_execute_press:
  "trigger_count (execute_press kb s) =
     (if kb (pressed_key s) = Succeeds then trigger_count s + 1 else trigger_count s)"
  by (simp add: execute_press_def pressed_key_def Let_def split: key_outcome.splits)

lemma last_trigger_time_execute_press [simp]:
  "last_trigger_time (execute_press kb s) = last_trigger_time s"
  by (simp add: execute_press_def Let_def split: key_outcome.splits)

lemma timers_execute_press [simp]: "timers (execute_press kb s) = timers s"
  by (simp add: execute_press_def Let_def split: key_outcome.splits)

lemma press_key_dropped: "in_cooldown now s \<Longrightarrow> press_key now kb s = s"
  by (simp add: press_key_def in_cooldown_def Let_def)

lemma press_key_scheduled:
  "\<not> in_cooldown now s \<Longrightarrow> 0 < press_delay_ms (config s) \<Longrightarrow>
   press_key now kb s =
     s\<lparr>last_trigger_time := f64_mul now 1000,
       timers := timers s @ [f64_div (f64_of_int (press_delay_ms (config s))) 1000],
       events := events s @ [StartTimer (f64_div (f64_of_int (press_delay_ms (config s))) 1000)]\<rparr>"
  by (simp add: press_key_def in_cooldown_def Let_def)

lemma press_key_inline:
  "\<not> in_cooldown now s \<Longrightarrow> press_delay_ms (config s) \<le> 0 \<Longrightarrow>
   press_key now kb s = execute_press kb (s\<lparr>last_trigger_time := f64_mul now 1000\<rparr>)"
  by (simp add: press_key_def in_cooldown_def Let_def)

lemma press_key_accepted_time:
  "\<not> in_cooldown now s \<Longrightarrow> last_trigger_time (press_key now kb s) = f64_mul now 1000"
  by (cases "0 < press_delay_ms (config s)") (simp_all add: press_key_scheduled press_key_inline)

lemma not_in_cooldown_example:
  "\<not> in_cooldown 1700000000 (init_monitor (default_settings\<lparr>press_delay_ms := d\<rparr>) 0)"
  by (simp add: in_cooldown_def init_monitor_def default_settings_def f64_mul_def f64_sub_def)

section \<open>The decision of a pass\<close>

lemma pixel_matches_within_tolerance:
  "valid_color target \<Longrightarrow> pixel_matches target t p = within_tolerance target t p"
  by (simp add: pixel_matches_def within_tolerance_def valid_color_def channel_diff_exact
      split: prod.splits)

lemma trigger_state_update_fps [simp]:
  "trigger_count (update_fps t s) = trigger_count s"
  "last_trigger_time (update_fps t s) = last_trigger_time s"
  "timers (update_fps t s) = timers s"
  "events (update_fps t s) = events s"
  by (simp_all add: update_fps_def Let_def)

lemma trigger_state_cadence [simp]:
  "trigger_count (cadence w s) = trigger_count s"
  "last_trigger_time (cadence w s) = last_trigger_time s"
  "timers (cadence w s) = timers s"
  by (simp_all add: cadence_def split: option.splits)

lemma sample_frame:
  "grab_result w = Inr img \<Longrightarrow>
   sample w s =
     (if np_greater_equal (fst (check_color_match (config s) img))
           (threshold_percentage (config s))
      then press_key (time_at_press w) (keyboard w)
             (update_fps (time_at_fps w)
                (s\<lparr>events := events s @ [Grab (monitor_region (config s))]\<rparr>))
      else update_fps (time_at_fps w)
             (s\<lparr>events := events s @ [Grab (monitor_region (config s))]\<rparr>))"
  by (simp add: sample_def Let_def split: prod.splits)

lemma round_half_even_error: "\<bar>of_int (round_half_even x) - x\<bar> \<le> 1 / 2"
proof -
  have f: "of_int \<lfloor>x\<rfloor> \<le> x" "x < of_int \<lfloor>x\<rfloor> + 1" by linarith+
  show ?thesis using f by (auto simp: round_half_even_def Let_def abs_le_iff)
qed

lemma round_f64_error:
  assumes "0 < q"
  shows "\<bar>round_f64 q - q\<bar> \<le> q / 2 ^ 53"
proof -
  define u :: rat where "u = 2 powi (binade q - 52)"
  define n where "n = round_half_even (q / u)"
  have u: "0 < u" by (simp add: u_def)
  have r: "round_f64 q = of_int n * u"
    using round_f64_pos [OF assms] by (simp add: n_def u_def)
  have "\<bar>of_int n - q / u\<bar> \<le> 1 / 2" unfolding n_def by (rule round_half_even_error)
  then have "\<bar>of_int n - q / u\<bar> * u \<le> 1 / 2 * u" using u by (simp add: mult_right_mono)
  moreover have "\<bar>of_int n - q / u\<bar> * u = \<bar>of_int n * u - q\<bar>"
  proof -
    have "\<bar>of_int n - q / u\<bar> * u = \<bar>(of_int n - q / u) * u\<bar>"
      using u by (simp add: abs_mult)
    also have "(of_int n - q / u) * u = of_int n * u - q" using u by (simp add: field_simps)
    finally show ?thesis .
  qed
  ultimately have e: "\<bar>round_f64 q - q\<bar> \<le> u / 2" by (simp add: r)
  have "2 powi 52 * u \<le> q"
    using binade_bounds [OF assms] powi_split52 [of "binade q"]
    by (simp add: u_def del: power_int_numeral)
  then have "u \<le> q / 2 ^ 52" by (simp add: field_simps)
  then have "u / 2 \<le> q / 2 ^ 53" by simp
  with e show ?thesis by linarith
qed

lemma percentage_of_error:
  assumes "0 \<le> m" "m \<le> t" "1 \<le> t" "t \<le> 2 ^ 53"
  shows "\<bar>percentage_of m t - of_int m / of_int t * 100\<bar> \<le> of_int m / of_int t * 100 / 2 ^ 51"
proof (cases "m = 0")
  case True
  then show ?thesis by (simp add: percentage_of_def f64_of_int_def f64_div_def f64_mul_def)
next
  case False
  with assms have mpos: "0 < m" by simp
  have "\<bar>m\<bar> \<le> 2 ^ 53" "\<bar>t\<bar> \<le> 2 ^ 53" using assms by simp_all
  then have mt: "f64_of_int m = of_int m" "f64_of_int t = of_int t"
    by (simp_all add: f64_of_int_def round_f64_of_int)
  define q :: rat where "q = of_int m / of_int t"
  have q: "0 < q" using mpos assms(3) by (simp add: q_def)
  define e :: rat where "e = 1 / 2 ^ 53"
  have e: "0 < e" "e \<le> 1" by (simp_all add: e_def)
  define a where "a = round_f64 q"
  have a: "0 < a" unfolding a_def using q by (simp add: round_f64_pos_iff)
  have ea: "\<bar>a - q\<bar> \<le> q * e"
    unfolding a_def e_def using round_f64_error [OF q] by simp
  define b where "b = round_f64 (a * 100)"
  have a100: "0 < a * 100" using a by simp
  have eb: "\<bar>b - a * 100\<bar> \<le> a * 100 * e"
    unfolding b_def e_def using round_f64_error [OF a100] by simp
  have p: "percentage_of m t = b"
    by (simp add: percentage_of_def f64_div_def f64_mul_def mt q_def a_def b_def)
  have "a - q \<le> \<bar>a - q\<bar>" by simp
  then have a_le: "a \<le> q + q * e" using ea by linarith
  have "q * e \<le> q * 1" using q e(2) by (intro mult_left_mono) simp_all
  then have "a \<le> 2 * q" using a_le by simp
  then have "a * e \<le> 2 * q * e" using e(1) by (intro mult_right_mono) simp_all
  then have ae: "a * e \<le> 2 * (q * e)" by (simp add: mult.assoc)
  have "a * 100 * e = 100 * (a * e)" by simp
  then have "\<bar>b - a * 100\<bar> \<le> 100 * (a * e)" using eb by (simp only:)
  then have eb': "\<bar>b - a * 100\<bar> \<le> 200 * (q * e)" using ae by linarith
  have "\<bar>b - q * 100\<bar> \<le> \<bar>b - a * 100\<bar> + \<bar>a * 100 - q * 100\<bar>" by simp
  moreover have "\<bar>a * 100 - q * 100\<bar> = \<bar>a - q\<bar> * 100"
  proof -
    have "a * 100 - q * 100 = (a - q) * 100" by (rule left_diff_distrib [symmetric])
    moreover have "\<bar>(a - q) * 100\<bar> = \<bar>a - q\<bar> * \<bar>100\<bar>" by (rule abs_mult)
    moreover have "\<bar>100 :: rat\<bar> = 100" by simp
    ultimately show ?thesis by (simp only:)
  qed
  ultimately have "\<bar>b - q * 100\<bar> \<le> 200 * (q * e) + q * e * 100" using eb' ea by linarith
  moreover have "0 \<le> q * e" using q e(1) by simp
  ultimately have "\<bar>b - q * 100\<bar> \<le> 400 * (q * e)" by linarith
  moreover have "400 * (q * e) = q * 100 / 2 ^ 51" by (simp add: e_def)
  ultimately show ?thesis by (simp only: p q_def)
qed

text \<open>
  The ratio on the examples of the specification, and a frame where the two roundings
  show: 29 matching pixels of 100 give a ratio just below 29.
\<close>

lemma percentage_examples:
  "percentage_of 1 2 = 50"
  "percentage_of 60 100 = 60"
  "percentage_of 40 100 = 40"
  "percentage_of 29 100 = 8162774324609023 / 281474976710656"
  by code_simp+

text \<open>
  C1, as stated, fails where the rounding shows. On a frame of 100 pixels of which 29
  match, with a threshold of 29, the exact ratio is 29 and meets the threshold, but the
  ratio the source computes is \<open>29 - 2 ^ - 48\<close>: \<open>press_key\<close> is not invoked, although
  the cooldown would have let the invocation through.
\<close>

theorem no_trigger_at_29_of_100:
  "int (length (filter (within_tolerance
                          (target_color (default_settings\<lparr>threshold_percentage := 29\<rparr>))
                          (color_tolerance (default_settings\<lparr>threshold_percentage := 29\<rparr>)))
                  (cells frame_29_of_100))) = 29 \<and>
   int (shape0 frame_29_of_100) * int (shape1 frame_29_of_100) = 100 \<and>
   threshold_percentage (default_settings\<lparr>threshold_percentage := 29\<rparr>)
     \<le> 29 / 100 * 100 \<and>
   fst (check_color_match (default_settings\<lparr>threshold_percentage := 29\<rparr>) frame_29_of_100)
     = Finite (8162774324609023 / 281474976710656) \<and>
   \<not> np_greater_equal
       (fst (check_color_match (default_settings\<lparr>threshold_percentage := 29\<rparr>)
               frame_29_of_100))
       (threshold_percentage (default_settings\<lparr>threshold_percentage := 29\<rparr>)) \<and>
   \<not> in_cooldown 1700000000
       (init_monitor (default_settings\<lparr>threshold_percentage := 29\<rparr>) 1700000000) \<and>
   last_trigger_time
     (loop_iteration
        \<lparr>perf_counter_start = 5, grab_result = Inr frame_29_of_100,
         time_at_fps = 1700000000, time_at_press = 1700000000,
         keyboard = working_keyboard, perf_counter_end = 6\<rparr>
        (init_monitor (default_settings\<lparr>threshold_percentage := 29\<rparr>) 1700000000)) = 0 \<and>
   trigger_count
     (loop_iteration
        \<lparr>perf_counter_start = 5, grab_result = Inr frame_29_of_100,
         time_at_fps = 1700000000, time_at_press = 1700000000,
         keyboard = working_keyboard, perf_counter_end = 6\<rparr>
        (init_monitor (default_settings\<lparr>threshold_percentage := 29\<rparr>) 1700000000)) = 0"
proof -
  define cfg where "cfg = default_settings\<lparr>threshold_percentage := 29\<rparr>"
  define w where "w =
     \<lparr>perf_counter_start = 5, grab_result = Inr frame_29_of_100,
      time_at_fps = 1700000000, time_at_press = 1700000000,
      keyboard = working_keyboard, perf_counter_end = 6\<rparr>"
  define s where "s = init_monitor cfg 1700000000"
  have v: "valid_color (target_color cfg)"
    by (simp add: valid_color_def default_settings_def cfg_def)
  have cnt: "int (length (filter (within_tolerance (target_color cfg) (color_tolerance cfg))
                  (cells frame_29_of_100))) = 29"
    by (simp add: within_tolerance_def default_settings_def cfg_def frame_29_of_100_def
        filter_replicate)
  have sz: "int (shape0 frame_29_of_100) * int (shape1 frame_29_of_100) = 100"
    by (simp add: frame_29_of_100_def)
  have thr: "threshold_percentage cfg = 29" by (simp add: cfg_def)
  have pm: "pixel_matches (target_color cfg) (color_tolerance cfg)
      = within_tolerance (target_color cfg) (color_tolerance cfg)"
    using v by (auto simp: pixel_matches_within_tolerance)
  have "fst (check_color_match cfg frame_29_of_100)
      = np_multiply (np_true_divide 29 100) 100"
    by (simp only: fst_check_color_match pm cnt total_pixels_def sz)
  also have "\<dots> = Finite (percentage_of 29 100)" by (rule ratio_finite) simp
  finally have r: "fst (check_color_match cfg frame_29_of_100)
      = Finite (8162774324609023 / 281474976710656)"
    by (simp only: percentage_examples)
  have nge: "\<not> np_greater_equal (fst (check_color_match cfg frame_29_of_100))
      (threshold_percentage cfg)"
    by (simp add: r thr)
  have nc: "\<not> in_cooldown 1700000000 s"
    by (simp add: in_cooldown_def s_def cfg_def init_monitor_def default_settings_def
        f64_mul_def f64_sub_def)
  have g: "grab_result w = Inr frame_29_of_100" by (simp add: w_def)
  have c: "config s = cfg" "\<not> is_paused s" "last_trigger_time s = 0" "trigger_count s = 0"
    by (simp_all add: s_def init_monitor_def)
  have li: "loop_iteration w s = cadence w (update_fps (time_at_fps w)
      (s\<lparr>events := events s @ [Grab (monitor_region (config s))]\<rparr>))"
    using nge c by (simp add: loop_iteration_def sample_frame [OF g])
  have lt: "last_trigger_time (loop_iteration w s) = 0" "trigger_count (loop_iteration w s) = 0"
    by (simp_all add: li c)
  show ?thesis
    using cnt sz thr r nge nc lt
    unfolding cfg_def [symmetric] w_def [symmetric] s_def [symmetric]
    by simp
qed

text \<open>
  C1, amended: for a frame with 8-bit channels and a target colour of the data model, a
  pixel matches exactly when its three absolute channel differences are at most the
  tolerance; the ratio is the number of matching pixels divided by \<open>H * W\<close> and
  multiplied by 100 in double precision, the quotient and the product each rounded to
  nearest, which on a frame of up to \<open>2 ^ 53\<close> pixels is within a relative \<open>2 ^ - 51\<close> of
  the exact value; and a pass that captured the frame invokes \<open>press_key\<close> exactly when
  this computed ratio is at least the threshold.
\<close>

theorem match_ratio_and_trigger:
  assumes "valid_color (target_color cfg)"
  shows
    "cells (snd (check_color_match cfg img))
       = map (within_tolerance (target_color cfg) (color_tolerance cfg)) (cells img) \<and>
     shape0 (snd (check_color_match cfg img)) = shape0 img \<and>
     shape1 (snd (check_color_match cfg img)) = shape1 img \<and>
     fst (check_color_match cfg img)
       = np_multiply
           (np_true_divide
              (int (length (filter (within_tolerance (target_color cfg) (color_tolerance cfg))
                              (cells img))))
              (int (shape0 img) * int (shape1 img))) 100 \<and>
     (0 < shape0 img * shape1 img \<longrightarrow>
        fst (check_color_match cfg img)
          = Finite (percentage_of
              (int (length (filter (within_tolerance (target_color cfg) (color_tolerance cfg))
                              (cells img))))
              (int (shape0 img) * int (shape1 img))) \<and>
        np_greater_equal (fst (check_color_match cfg img)) (threshold_percentage cfg)
          = (threshold_percentage cfg
              \<le> percentage_of
                  (int (length (filter (within_tolerance (target_color cfg) (color_tolerance cfg))
                                  (cells img))))
                  (int (shape0 img) * int (shape1 img)))) \<and>
     (config s = cfg \<and> \<not> is_paused s \<and> grab_result w = Inr img \<and>
      np_greater_equal (fst (check_color_match cfg img)) (threshold_percentage cfg) \<longrightarrow>
        loop_iteration w s =
          cadence w (press_key (time_at_press w) (keyboard w)
            (update_fps (time_at_fps w)
               (s\<lparr>events := events s @ [Grab (monitor_region cfg)]\<rparr>)))) \<and>
     (config s = cfg \<and> \<not> is_paused s \<and> grab_result w = Inr img \<and>
      \<not> np_greater_equal (fst (check_color_match cfg img)) (threshold_percentage cfg) \<longrightarrow>
        loop_iteration w s =
          cadence w (update_fps (time_at_fps w)
            (s\<lparr>events := events s @ [Grab (monitor_region cfg)]\<rparr>)) \<and>
        trigger_count (loop_iteration w s) = trigger_count s \<and>
        last_trigger_time (loop_iteration w s) = last_trigger_time s \<and>
        timers (loop_iteration w s) = timers s) \<and>
     (well_shaped img \<and> 0 < shape0 img * shape1 img \<and>
      int (shape0 img) * int (shape1 img) \<le> 2 ^ 53 \<longrightarrow>
        \<bar>percentage_of
            (int (length (filter (within_tolerance (target_color cfg) (color_tolerance cfg))
                            (cells img))))
            (int (shape0 img) * int (shape1 img))
          - of_int (int (length (filter (within_tolerance (target_color cfg)
                                           (color_tolerance cfg)) (cells img))))
            / of_int (int (shape0 img) * int (shape1 img)) * 100\<bar>
        \<le> of_int (int (length (filter (within_tolerance (target_color cfg)
                                           (color_tolerance cfg)) (cells img))))
            / of_int (int (shape0 img) * int (shape1 img)) * 100 / 2 ^ 51)"
proof -
  define P where "P = within_tolerance (target_color cfg) (color_tolerance cfg)"
  have pm: "pixel_matches (target_color cfg) (color_tolerance cfg) = P"
    using assms by (auto simp: P_def pixel_matches_within_tolerance)
  have a: "cells (snd (check_color_match cfg img)) = map P (cells img)"
    "shape0 (snd (check_color_match cfg img)) = shape0 img"
    "shape1 (snd (check_color_match cfg img)) = shape1 img"
    by (simp_all add: check_color_match_def Let_def pm)
  have b: "fst (check_color_match cfg img)
       = np_multiply (np_true_divide (int (length (filter P (cells img))))
            (int (shape0 img) * int (shape1 img))) 100"
    by (simp add: fst_check_color_match pm total_pixels_def)
  have c: "fst (check_color_match cfg img)
          = Finite (percentage_of (int (length (filter P (cells img))))
              (int (shape0 img) * int (shape1 img)))"
    if "0 < shape0 img * shape1 img"
  proof -
    have "1 \<le> int (shape0 img) * int (shape1 img)"
      using total_pixels_pos [OF that] by (simp add: total_pixels_def)
    then show ?thesis by (simp add: b ratio_finite)
  qed
  have d: "loop_iteration w s =
          cadence w (press_key (time_at_press w) (keyboard w)
            (update_fps (time_at_fps w)
               (s\<lparr>events := events s @ [Grab (monitor_region cfg)]\<rparr>)))"
    if "config s = cfg \<and> \<not> is_paused s \<and> grab_result w = Inr img \<and>
      np_greater_equal (fst (check_color_match cfg img)) (threshold_percentage cfg)"
    using that by (auto simp: loop_iteration_def sample_frame)
  have e: "loop_iteration w s =
          cadence w (update_fps (time_at_fps w)
            (s\<lparr>events := events s @ [Grab (monitor_region cfg)]\<rparr>))"
    if "config s = cfg \<and> \<not> is_paused s \<and> grab_result w = Inr img \<and>
      \<not> np_greater_equal (fst (check_color_match cfg img)) (threshold_percentage cfg)"
    using that by (auto simp: loop_iteration_def sample_frame)
  have f: "\<bar>percentage_of (int (length (filter P (cells img))))
            (int (shape0 img) * int (shape1 img))
          - of_int (int (length (filter P (cells img))))
            / of_int (int (shape0 img) * int (shape1 img)) * 100\<bar>
        \<le> of_int (int (length (filter P (cells img))))
            / of_int (int (shape0 img) * int (shape1 img)) * 100 / 2 ^ 51"
    if h: "well_shaped img \<and> 0 < shape0 img * shape1 img \<and>
      int (shape0 img) * int (shape1 img) \<le> 2 ^ 53"
  proof (rule percentage_of_error)
    show "0 \<le> int (length (filter P (cells img)))" by simp
    show "int (length (filter P (cells img))) \<le> int (shape0 img) * int (shape1 img)"
      using count_le_total [of img P] h by (simp add: total_pixels_def)
    show "1 \<le> int (shape0 img) * int (shape1 img)"
      using total_pixels_pos [of img] h by (simp add: total_pixels_def)
    show "int (shape0 img) * int (shape1 img) \<le> 2 ^ 53" using h by simp
  qed
  show ?thesis
    unfolding P_def [symmetric]
    using a b c d e f by simp
qed


theorem match_ratio_and_trigger_witness:
  "valid_color (target_color default_settings) \<and>
   fst (check_color_match default_settings
          \<lparr>shape0 = 1, shape1 = 2, cells = [(255, 0, 0), (0, 0, 255 :: u8)]\<rparr>) = Finite 50 \<and>
   np_greater_equal
     (fst (check_color_match default_settings
             \<lparr>shape0 = 1, shape1 = 2, cells = [(255, 0, 0), (0, 0, 255 :: u8)]\<rparr>))
     (threshold_percentage default_settings) \<and>
   loop_iteration
     \<lparr>perf_counter_start = 5,
      grab_result = Inr \<lparr>shape0 = 1, shape1 = 2, cells = [(255, 0, 0), (0, 0, 255 :: u8)]\<rparr>,
      time_at_fps = 1700000000, time_at_press = 1700000000,
      keyboard = working_keyboard, perf_counter_end = 6\<rparr>
     (init_monitor default_settings 1700000000)
   = cadence
       \<lparr>perf_counter_start = 5,
        grab_result = Inr \<lparr>shape0 = 1, shape1 = 2, cells = [(255, 0, 0), (0, 0, 255 :: u8)]\<rparr>,
        time_at_fps = 1700000000, time_at_press = 1700000000,
        keyboard = working_keyboard, perf_counter_end = 6\<rparr>
       (press_key 1700000000 working_keyboard
          (update_fps 1700000000
             ((init_monitor default_settings 1700000000)
                \<lparr>events := events (init_monitor default_settings 1700000000)
                   @ [Grab (monitor_region default_settings)]\<rparr>))) \<and>
   \<not> np_greater_equal
     (fst (check_color_match (default_settings\<lparr>threshold_percentage := 60\<rparr>)
             \<lparr>shape0 = 1, shape1 = 2, cells = [(255, 0, 0), (0, 0, 255 :: u8)]\<rparr>))
     (threshold_percentage (default_settings\<lparr>threshold_percentage := 60\<rparr>)) \<and>
   trigger_count (loop_iteration
     \<lparr>perf_counter_start = 5,
      grab_result = Inr \<lparr>shape0 = 1, shape1 = 2, cells = [(255, 0, 0), (0, 0, 255 :: u8)]\<rparr>,
      time_at_fps = 1700000000, time_at_press = 1700000000,
      keyboard = working_keyboard, perf_counter_end = 6\<rparr>
     (init_monitor (default_settings\<lparr>threshold_percentage := 60\<rparr>) 1700000000))
   = trigger_count (init_monitor (default_settings\<lparr>threshold_percentage := 60\<rparr>) 1700000000) \<and>
   \<bar>percentage_of 1 2 - 1 / 2 * 100\<bar> \<le> 1 / 2 * 100 / 2 ^ 51"
proof -
  define img :: "pixel ndarray"
    where "img = \<lparr>shape0 = 1, shape1 = 2, cells = [(255, 0, 0), (0, 0, 255 :: u8)]\<rparr>"
  define w where "w =
     \<lparr>perf_counter_start = 5, grab_result = Inr img,
      time_at_fps = 1700000000, time_at_press = 1700000000,
      keyboard = working_keyboard, perf_counter_end = 6\<rparr>"
  define cfg' where "cfg' = default_settings\<lparr>threshold_percentage := 60\<rparr>"
  have v: "valid_color (target_color default_settings)" "valid_color (target_color cfg')"
    by (simp_all add: valid_color_def default_settings_def cfg'_def)
  have cnt: "int (length (filter (within_tolerance (target_color default_settings)
                 (color_tolerance default_settings)) (cells img))) = 1"
      "int (length (filter (within_tolerance (target_color cfg')
                 (color_tolerance cfg')) (cells img))) = 1"
    by (simp_all add: within_tolerance_def default_settings_def img_def cfg'_def)
  have sz: "0 < shape0 img * shape1 img" "int (shape0 img) * int (shape1 img) = 2"
    by (simp_all add: img_def)
  note T = match_ratio_and_trigger [OF v(1), where img = img and w = w
      and s = "init_monitor default_settings 1700000000"]
  note T' = match_ratio_and_trigger [OF v(2), where img = img and w = w
      and s = "init_monitor cfg' 1700000000"]
  note r = T [THEN conjunct2, THEN conjunct2, THEN conjunct2, THEN conjunct2, THEN conjunct1,
      rule_format, OF sz(1), unfolded cnt sz(2) percentage_examples]
  note r' = T' [THEN conjunct2, THEN conjunct2, THEN conjunct2, THEN conjunct2, THEN conjunct1,
      rule_format, OF sz(1), unfolded cnt sz(2) percentage_examples]
  have ge: "np_greater_equal (fst (check_color_match default_settings img))
      (threshold_percentage default_settings)"
    using r by (simp add: default_settings_def)
  have nge: "\<not> np_greater_equal (fst (check_color_match cfg' img)) (threshold_percentage cfg')"
    using r' by (simp add: cfg'_def)
  have pre: "config (init_monitor default_settings 1700000000) = default_settings \<and>
      \<not> is_paused (init_monitor default_settings 1700000000) \<and> grab_result w = Inr img \<and>
      np_greater_equal (fst (check_color_match default_settings img))
        (threshold_percentage default_settings)"
    using ge by (simp add: init_monitor_def w_def)
  have pre': "config (init_monitor cfg' 1700000000) = cfg' \<and>
      \<not> is_paused (init_monitor cfg' 1700000000) \<and> grab_result w = Inr img \<and>
      \<not> np_greater_equal (fst (check_color_match cfg' img)) (threshold_percentage cfg')"
    using nge by (simp add: init_monitor_def w_def)
  note fire = T [THEN conjunct2, THEN conjunct2, THEN conjunct2, THEN conjunct2, THEN conjunct2,
      THEN conjunct1, rule_format, OF pre]
  note quiet = T' [THEN conjunct2, THEN conjunct2, THEN conjunct2, THEN conjunct2, THEN conjunct2,
      THEN conjunct2, THEN conjunct1, rule_format, OF pre', THEN conjunct2, THEN conjunct1]
  have pre'': "well_shaped img \<and> 0 < shape0 img * shape1 img \<and>
      int (shape0 img) * int (shape1 img) \<le> 2 ^ 53"
    by (simp add: img_def well_shaped_def)
  note close = T [THEN conjunct2, THEN conjunct2, THEN conjunct2, THEN conjunct2, THEN conjunct2,
      THEN conjunct2, THEN conjunct2, rule_format, OF pre'', unfolded cnt sz(2)]
  have bound: "\<bar>percentage_of 1 2 - 1 / 2 * 100\<bar> \<le> 1 / 2 * 100 / 2 ^ 51"
    using close by simp
  have tp: "time_at_press w = 1700000000" "time_at_fps w = 1700000000"
    "keyboard w = working_keyboard"
    by (simp_all add: w_def)
  show ?thesis
    using v(1) r [THEN conjunct1] ge fire [unfolded tp] nge quiet bound
    unfolding img_def [symmetric] w_def [symmetric] cfg'_def [symmetric]
    by (intro conjI)
qed


section \<open>The trigger counter\<close>

lemma key_actions_append [simp]: "key_actions (es @ fs) = key_actions es + key_actions fs"
  by (simp add: key_actions_def)

lemma key_actions_Nil [simp]: "key_actions [] = 0"
  by (simp add: key_actions_def)

lemma key_actions_Cons [simp]:
  "key_actions (e # es) = (if completes_key_action e then 1 else 0) + key_actions es"
  by (simp add: key_actions_def)

lemma pressed_key_last_trigger_time [simp]:
  "pressed_key (s\<lparr>last_trigger_time := t\<rparr>) = pressed_key s"
  by (simp add: pressed_key_def)

lemma pressed_key_timers [simp]: "pressed_key (s\<lparr>timers := t\<rparr>) = pressed_key s"
  by (simp add: pressed_key_def)

lemma execute_press_succeeds:
  "kb (pressed_key s) = Succeeds \<Longrightarrow>
   execute_press kb s =
     s\<lparr>trigger_count := trigger_count s + 1,
       events := events s @ [Press (pressed_key s), Release (pressed_key s),
                             PrintTriggered (lower (press_key_name (config s)))
                               (trigger_count s + 1)]\<rparr>"
  by (simp add: execute_press_def pressed_key_def Let_def)

lemma execute_press_press_raises:
  "kb (pressed_key s) = PressRaises e \<Longrightarrow>
   execute_press kb s = s\<lparr>events := events s @ [PrintKeyError e]\<rparr>"
  by (simp add: execute_press_def pressed_key_def Let_def)

lemma execute_press_release_raises:
  "kb (pressed_key s) = ReleaseRaises e \<Longrightarrow>
   execute_press kb s = s\<lparr>events := events s @ [Press (pressed_key s), PrintKeyError e]\<rparr>"
  by (simp add: execute_press_def pressed_key_def Let_def)

lemma counted_execute_press:
  "trigger_count (execute_press kb s) - trigger_count s
     = int (key_actions (events (execute_press kb s))) - int (key_actions (events s))"
  by (cases "kb (pressed_key s)")
     (simp_all add: execute_press_succeeds execute_press_press_raises
        execute_press_release_raises)

lemma counted_press_key:
  "trigger_count (press_key now kb s) - trigger_count s
     = int (key_actions (events (press_key now kb s))) - int (key_actions (events s))"
proof (cases "in_cooldown now s")
  case True
  then show ?thesis by (simp add: press_key_dropped)
next
  case False
  show ?thesis
  proof (cases "0 < press_delay_ms (config s)")
    case True
    then show ?thesis using False by (simp add: press_key_scheduled)
  next
    case d: False
    then have "press_key now kb s = execute_press kb (s\<lparr>last_trigger_time := f64_mul now 1000\<rparr>)"
      using False by (simp add: press_key_inline)
    then show ?thesis
      using counted_execute_press [of kb "s\<lparr>last_trigger_time := f64_mul now 1000\<rparr>"]
      by simp
  qed
qed

lemma counted_timer_fires:
  "trigger_count (timer_fires i kb s) - trigger_count s
     = int (key_actions (events (timer_fires i kb s))) - int (key_actions (events s))"
proof (cases "i < length (timers s)")
  case True
  then show ?thesis
    using counted_execute_press
      [of kb "s\<lparr>timers := take i (timers s) @ drop (Suc i) (timers s)\<rparr>"]
    by (simp add: timer_fires_def)
next
  case False
  then show ?thesis by (simp add: timer_fires_def)
qed

lemma detection_fields_update_fps [simp]:
  "is_paused (update_fps t s) = is_paused s"
  by (simp add: update_fps_def Let_def)

lemma counted_sample:
  "trigger_count (sample w s) - trigger_count s
     = int (key_actions (events (sample w s))) - int (key_actions (events s))"
proof (cases "grab_result w")
  case (Inl e)
  then show ?thesis by (simp add: sample_def Let_def)
next
  case (Inr img)
  define s1 where "s1 = update_fps (time_at_fps w)
      (s\<lparr>events := events s @ [Grab (monitor_region (config s))]\<rparr>)"
  have s1: "trigger_count s1 = trigger_count s" "key_actions (events s1) = key_actions (events s)"
    by (simp_all add: s1_def)
  show ?thesis
    using counted_press_key [of "time_at_press w" "keyboard w" s1] s1
    by (simp add: sample_frame [OF Inr] s1_def [symmetric])
qed

lemma counted_loop_iteration:
  "trigger_count (loop_iteration w s) - trigger_count s
     = int (key_actions (events (loop_iteration w s))) - int (key_actions (events s))"
proof (cases "is_paused s")
  case True
  then show ?thesis by (simp add: loop_iteration_def)
next
  case False
  have "key_actions (events (cadence w (sample w s))) = key_actions (events (sample w s))"
    by (simp add: cadence_def split: option.splits)
  then show ?thesis using False counted_sample [of w s] by (simp add: loop_iteration_def)
qed


text \<open>
  C3: \<open>_execute_press\<close> carries out the key action and then counts it. When press and
  release succeed, both are in the trace and the counter is one higher; when the press or
  the release raises, the error is logged and the counter is as before. An accepted
  invocation with a positive delay starts one timer and neither acts on a key nor counts;
  with no delay it runs \<open>_execute_press\<close> at once. A timer that fires runs
  \<open>_execute_press\<close> and is gone. So over \<open>_execute_press\<close>, \<open>press_key\<close>, a firing
  timer and a whole pass of the loop, the counter grows by exactly the number of key actions
  completed.
\<close>

theorem counter_increments_at_execution:
  "(kb (pressed_key s) = Succeeds \<longrightarrow>
      execute_press kb s =
        s\<lparr>trigger_count := trigger_count s + 1,
          events := events s @ [Press (pressed_key s), Release (pressed_key s),
                                PrintTriggered (lower (press_key_name (config s)))
                                  (trigger_count s + 1)]\<rparr>) \<and>
   (\<forall>e. kb (pressed_key s) = PressRaises e \<longrightarrow>
      execute_press kb s = s\<lparr>events := events s @ [PrintKeyError e]\<rparr>) \<and>
   (\<forall>e. kb (pressed_key s) = ReleaseRaises e \<longrightarrow>
      execute_press kb s =
        s\<lparr>events := events s @ [Press (pressed_key s), PrintKeyError e]\<rparr>) \<and>
   (\<not> in_cooldown now s \<and> 0 < press_delay_ms (config s) \<longrightarrow>
      press_key now kb s =
        s\<lparr>last_trigger_time := f64_mul now 1000,
          timers := timers s @ [f64_div (f64_of_int (press_delay_ms (config s))) 1000],
          events := events s
            @ [StartTimer (f64_div (f64_of_int (press_delay_ms (config s))) 1000)]\<rparr> \<and>
      trigger_count (press_key now kb s) = trigger_count s \<and>
      key_actions (events (press_key now kb s)) = key_actions (events s)) \<and>
   (\<not> in_cooldown now s \<and> press_delay_ms (config s) \<le> 0 \<longrightarrow>
      press_key now kb s = execute_press kb (s\<lparr>last_trigger_time := f64_mul now 1000\<rparr>) \<and>
      timers (press_key now kb s) = timers s) \<and>
   (i < length (timers s) \<longrightarrow>
      timer_fires i kb s
        = execute_press kb (s\<lparr>timers := take i (timers s) @ drop (Suc i) (timers s)\<rparr>) \<and>
      length (timers (timer_fires i kb s)) + 1 = length (timers s)) \<and>
   trigger_count (execute_press kb s) - trigger_count s
     = int (key_actions (events (execute_press kb s))) - int (key_actions (events s)) \<and>
   trigger_count (press_key now kb s) - trigger_count s
     = int (key_actions (events (press_key now kb s))) - int (key_actions (events s)) \<and>
   trigger_count (timer_fires i kb s) - trigger_count s
     = int (key_actions (events (timer_fires i kb s))) - int (key_actions (events s)) \<and>
   trigger_count (loop_iteration w s) - trigger_count s
     = int (key_actions (events (loop_iteration w s))) - int (key_actions (events s))"
proof -
  have e: "length (timers (timer_fires i kb s)) + 1 = length (timers s)"
    if "i < length (timers s)"
    using that by (simp add: timer_fires_def min_def)
  have f: "timer_fires i kb s
        = execute_press kb (s\<lparr>timers := take i (timers s) @ drop (Suc i) (timers s)\<rparr>)"
    if "i < length (timers s)"
    using that by (simp add: timer_fires_def)
  have g: "press_key now kb s =
        s\<lparr>last_trigger_time := f64_mul now 1000,
          timers := timers s @ [f64_div (f64_of_int (press_delay_ms (config s))) 1000],
          events := events s
            @ [StartTimer (f64_div (f64_of_int (press_delay_ms (config s))) 1000)]\<rparr> \<and>
      trigger_count (press_key now kb s) = trigger_count s \<and>
      key_actions (events (press_key now kb s)) = key_actions (events s)"
    if "\<not> in_cooldown now s \<and> 0 < press_delay_ms (config s)"
    using that by (simp add: press_key_scheduled)
  have h: "press_key now kb s = execute_press kb (s\<lparr>last_trigger_time := f64_mul now 1000\<rparr>) \<and>
      timers (press_key now kb s) = timers s"
    if "\<not> in_cooldown now s \<and> press_delay_ms (config s) \<le> 0"
    using that by (simp add: press_key_inline)
  show ?thesis
    using e f g h execute_press_succeeds [of kb s] execute_press_press_raises [of kb s]
      execute_press_release_raises [of kb s] counted_execute_press [of kb s]
      counted_press_key [of now kb s] counted_timer_fires [of i kb s]
      counted_loop_iteration [of w s]
    by blast
qed


lemma pressed_key_default:
  "pressed_key (init_monitor (default_settings\<lparr>press_delay_ms := d\<rparr>) t) = KeyStr ''e''"
  "pressed_key (init_monitor default_settings t) = KeyStr ''e''"
  by (simp_all add: pressed_key_def init_monitor_def default_settings_def key_for_def
      lower_def lower_char_def)

theorem counter_increments_at_execution_witness:
  "working_keyboard (pressed_key (init_monitor default_settings 0)) = Succeeds \<and>
   trigger_count (execute_press working_keyboard (init_monitor default_settings 0)) = 1 \<and>
   events (execute_press working_keyboard (init_monitor default_settings 0))
     = [Press (KeyStr ''e''), Release (KeyStr ''e''), PrintTriggered ''e'' 1] \<and>
   broken_keyboard (pressed_key (init_monitor default_settings 0))
     = PressRaises ControllerError \<and>
   trigger_count (execute_press broken_keyboard (init_monitor default_settings 0)) = 0 \<and>
   events (execute_press broken_keyboard (init_monitor default_settings 0))
     = [PrintKeyError ControllerError] \<and>
   sticky_keyboard (pressed_key (init_monitor default_settings 0))
     = ReleaseRaises ControllerError \<and>
   trigger_count (execute_press sticky_keyboard (init_monitor default_settings 0)) = 0 \<and>
   events (execute_press sticky_keyboard (init_monitor default_settings 0))
     = [Press (KeyStr ''e''), PrintKeyError ControllerError] \<and>
   \<not> in_cooldown 1700000000 (init_monitor (default_settings\<lparr>press_delay_ms := 50\<rparr>) 0) \<and>
   0 < press_delay_ms (config (init_monitor (default_settings\<lparr>press_delay_ms := 50\<rparr>) 0)) \<and>
   trigger_count (press_key 1700000000 working_keyboard
                    (init_monitor (default_settings\<lparr>press_delay_ms := 50\<rparr>) 0)) = 0 \<and>
   key_actions (events (press_key 1700000000 working_keyboard
                    (init_monitor (default_settings\<lparr>press_delay_ms := 50\<rparr>) 0))) = 0 \<and>
   \<not> in_cooldown 1700000000 (init_monitor (default_settings\<lparr>press_delay_ms := 0\<rparr>) 0) \<and>
   press_delay_ms (config (init_monitor (default_settings\<lparr>press_delay_ms := 0\<rparr>) 0)) \<le> 0 \<and>
   press_key 1700000000 working_keyboard
       (init_monitor (default_settings\<lparr>press_delay_ms := 0\<rparr>) 0)
     = execute_press working_keyboard
         ((init_monitor (default_settings\<lparr>press_delay_ms := 0\<rparr>) 0)
            \<lparr>last_trigger_time := f64_mul 1700000000 1000\<rparr>) \<and>
   (0 :: nat) < length (timers ((init_monitor default_settings 0)\<lparr>timers := [1 / 2]\<rparr>)) \<and>
   length (timers (timer_fires 0 working_keyboard
                     ((init_monitor default_settings 0)\<lparr>timers := [1 / 2]\<rparr>))) + 1
     = length (timers ((init_monitor default_settings 0)\<lparr>timers := [1 / 2]\<rparr>))"
proof -
  define s0 where "s0 = init_monitor default_settings 0"
  define s50 where "s50 = init_monitor (default_settings\<lparr>press_delay_ms := 50\<rparr>) 0"
  define s00 where "s00 = init_monitor (default_settings\<lparr>press_delay_ms := 0\<rparr>) 0"
  define st where "st = (init_monitor default_settings 0)\<lparr>timers := [1 / 2]\<rparr>"
  have k: "pressed_key s0 = KeyStr ''e''" unfolding s0_def by (rule pressed_key_default)
  have z: "trigger_count s0 = 0" "events s0 = []" "press_key_name (config s0) = ''e''"
    "trigger_count s50 = 0" "events s50 = []"
    by (simp_all add: s0_def s50_def init_monitor_def default_settings_def)
  have low: "lower ''e'' = ''e''" by (simp add: lower_def lower_char_def)
  have h1: "working_keyboard (pressed_key s0) = Succeeds" by (simp add: working_keyboard_def)
  note c1 = counter_increments_at_execution
      [where kb = working_keyboard and s = s0, THEN conjunct1, rule_format, OF h1]
  have c1a: "trigger_count (execute_press working_keyboard s0) = 1"
    unfolding c1 by (simp add: z)
  have c1b: "events (execute_press working_keyboard s0)
      = [Press (KeyStr ''e''), Release (KeyStr ''e''), PrintTriggered ''e'' 1]"
    unfolding c1 by (simp add: z k low)
  have h2: "broken_keyboard (pressed_key s0) = PressRaises ControllerError"
    by (simp add: broken_keyboard_def)
  note c2 = counter_increments_at_execution
      [where kb = broken_keyboard and s = s0, THEN conjunct2, THEN conjunct1, rule_format, OF h2]
  have c2a: "trigger_count (execute_press broken_keyboard s0) = 0"
    unfolding c2 by (simp add: z)
  have c2b: "events (execute_press broken_keyboard s0) = [PrintKeyError ControllerError]"
    unfolding c2 by (simp add: z)
  have h3: "sticky_keyboard (pressed_key s0) = ReleaseRaises ControllerError"
    by (simp add: sticky_keyboard_def)
  note c3 = counter_increments_at_execution
      [where kb = sticky_keyboard and s = s0, THEN conjunct2, THEN conjunct2, THEN conjunct1,
       rule_format, OF h3]
  have c3a: "trigger_count (execute_press sticky_keyboard s0) = 0"
    unfolding c3 by (simp add: z)
  have c3b: "events (execute_press sticky_keyboard s0)
      = [Press (KeyStr ''e''), PrintKeyError ControllerError]"
    unfolding c3 by (simp add: z k)
  have h4: "\<not> in_cooldown 1700000000 s50"
    unfolding s50_def by (rule not_in_cooldown_example)
  have h4': "0 < press_delay_ms (config s50)"
    by (simp add: s50_def init_monitor_def)
  note c4 = counter_increments_at_execution
      [where now = 1700000000 and s = s50 and kb = working_keyboard,
       THEN conjunct2, THEN conjunct2, THEN conjunct2, THEN conjunct1, rule_format,
       OF conjI, OF h4 h4']
  have c4a: "trigger_count (press_key 1700000000 working_keyboard s50) = 0"
    using c4 [THEN conjunct2, THEN conjunct1] by (simp add: z)
  have c4b: "key_actions (events (press_key 1700000000 working_keyboard s50)) = 0"
    using c4 [THEN conjunct2, THEN conjunct2] by (simp add: z)
  have h5: "\<not> in_cooldown 1700000000 s00"
    unfolding s00_def by (rule not_in_cooldown_example)
  have h5': "press_delay_ms (config s00) \<le> 0"
    by (simp add: s00_def init_monitor_def)
  note c5 = counter_increments_at_execution
      [where now = 1700000000 and s = s00 and kb = working_keyboard,
       THEN conjunct2, THEN conjunct2, THEN conjunct2, THEN conjunct2, THEN conjunct1,
       rule_format, OF conjI, OF h5 h5', THEN conjunct1]
  have h6: "(0 :: nat) < length (timers st)" by (simp add: st_def)
  note c6 = counter_increments_at_execution
      [where s = st and kb = working_keyboard and i = 0,
       THEN conjunct2, THEN conjunct2, THEN conjunct2, THEN conjunct2, THEN conjunct2,
       THEN conjunct1, rule_format, OF h6, THEN conjunct2]
  show ?thesis
    using h1 c1a c1b h2 c2a c2b h3 c3a c3b h4 h4' c4a c4b h5 h5' c5 h6 c6
    unfolding s0_def s50_def s00_def st_def
    by (intro conjI)
qed

section \<open>The debounce\<close>

lemma binade_unique:
  assumes "0 < q" "2 powi e \<le> q" "q < 2 powi (e + 1)"
  shows "binade q = e"
proof -
  have b: "2 powi (binade q) \<le> q" "q < 2 powi (binade q + 1)"
    using binade_bounds [OF assms(1)] by simp_all
  have lt: "i < j + 1" if "(2::rat) powi i \<le> q" "q < 2 powi (j + 1)" for i j :: int
  proof (rule ccontr)
    assume "\<not> i < j + 1"
    then have "j + 1 \<le> i" by simp
    then have "(2::rat) powi (j + 1) \<le> 2 powi i" by (rule power_int_increasing) simp
    with that show False by simp
  qed
  have "e < binade q + 1" using assms(2) b(2) by (rule lt)
  moreover have "binade q < e + 1" using b(1) assms(3) by (rule lt)
  ultimately show ?thesis by simp
qed

lemma mantissa_bounds:
  assumes "0 < q"
  shows "2 ^ 52 \<le> round_half_even (q / 2 powi (binade q - 52))"
    and "round_half_even (q / 2 powi (binade q - 52)) \<le> 2 ^ 53"
proof -
  define u :: rat where "u = 2 powi (binade q - 52)"
  define n where "n = round_half_even (q / u)"
  have u: "0 < u" by (simp add: u_def)
  have r: "round_f64 q = of_int n * u"
    using round_f64_pos [OF assms] by (simp add: n_def u_def)
  have "2 powi 52 * u \<le> of_int n * u"
    using round_f64_pos_lower [OF assms] powi_split52 [of "binade q"]
    by (simp add: r u_def del: power_int_numeral)
  then have "(2::rat) powi 52 \<le> of_int n" using u by simp
  then have "(of_int (2 ^ 52) :: rat) \<le> of_int n" by simp
  then show "2 ^ 52 \<le> round_half_even (q / 2 powi (binade q - 52))"
    unfolding n_def u_def by (simp only: of_int_le_iff)
  have "of_int n * u \<le> 2 powi 53 * u"
    using round_f64_pos_upper [OF assms] powi_split53 [of "binade q"]
    by (simp add: r u_def del: power_int_numeral)
  then have "of_int n \<le> (2::rat) powi 53" using u by simp
  then have "(of_int n :: rat) \<le> of_int (2 ^ 53)" by simp
  then show "round_half_even (q / 2 powi (binade q - 52)) \<le> 2 ^ 53"
    unfolding n_def u_def by (simp only: of_int_le_iff)
qed

lemma round_f64_idem_pos:
  assumes "0 < q"
  shows "round_f64 (round_f64 q) = round_f64 q"
proof -
  define b where "b = binade q"
  define u :: rat where "u = 2 powi (b - 52)"
  define n where "n = round_half_even (q / u)"
  define r where "r = round_f64 q"
  have u: "0 < u" by (simp add: u_def)
  have r: "r = of_int n * u"
    using round_f64_pos [OF assms] by (simp add: r_def n_def u_def b_def)
  have n: "2 ^ 52 \<le> n" "n \<le> 2 ^ 53"
    using mantissa_bounds [OF assms] by (simp_all add: n_def u_def b_def)
  have rpos: "0 < r" unfolding r_def using assms by (simp add: round_f64_pos_iff)
  have lo: "2 powi b \<le> r"
    using round_f64_pos_lower [OF assms] by (simp add: r_def b_def)
  show ?thesis
  proof (cases "n = 2 ^ 53")
    case True
    have "(of_int n :: rat) = 2 powi 53" using True by simp
    then have rv: "r = 2 powi (b + 1)"
      by (simp only: r u_def powi_split53 [of b])
    have "r < 2 powi (b + 1 + 1)"
      unfolding rv by (rule power_int_strict_increasing) simp_all
    moreover have "2 powi (b + 1) \<le> r" by (simp add: rv)
    ultimately have br: "binade r = b + 1" using rpos by (intro binade_unique) simp_all
    have "r / 2 powi (binade r - 52) = r / 2 powi (b + 1 - 52)"
      by (simp only: br)
    also have "\<dots> = 2 powi (b + 1) / 2 powi (b + 1 - 52)"
      by (simp only: rv)
    also have "\<dots> = 2 powi 52"
      using powi_split52 [of "b + 1"] by (simp del: power_int_numeral)
    also have "\<dots> = of_int (2 ^ 52)" by simp
    finally have "round_f64 r = r" by (rule round_f64_exact [OF rpos])
    then show ?thesis by (simp add: r_def)
  next
    case False
    with n have "n < 2 ^ 53" by simp
    then have "(of_int n :: rat) < of_int (2 ^ 53)" by (simp only: of_int_less_iff)
    then have "of_int n * u < 2 powi 53 * u" using u by simp
    then have "r < 2 powi (b + 1)"
      using powi_split53 [of b] by (simp add: r u_def del: power_int_numeral)
    then have br: "binade r = b" using rpos lo by (intro binade_unique) simp_all
    have "r / 2 powi (binade r - 52) = r / u"
      by (simp only: br u_def)
    also have "\<dots> = of_int n" using u by (simp add: r)
    finally have "r / 2 powi (binade r - 52) = of_int n" .
    then have "round_f64 r = r" by (rule round_f64_exact [OF rpos])
    then show ?thesis by (simp add: r_def)
  qed
qed

lemma round_f64_idem [simp]: "round_f64 (round_f64 q) = round_f64 q"
proof -
  consider "q = 0" | "0 < q" | "q < 0" by linarith
  then show ?thesis
  proof cases
    case 1
    then show ?thesis by simp
  next
    case 2
    then show ?thesis by (rule round_f64_idem_pos)
  next
    case 3
    then have "round_f64 (round_f64 (- q)) = round_f64 (- q)"
      by (intro round_f64_idem_pos) simp
    then show ?thesis by (simp add: round_f64_minus)
  qed
qed

lemma f64_sub_zero [simp]: "f64_sub (f64_mul x y) 0 = f64_mul x y"
  by (simp add: f64_sub_def f64_mul_def)

lemma first_invocation_accepted_iff:
  "in_cooldown now (init_monitor cfg t0) \<longleftrightarrow> f64_mul now 1000 < of_int (cooldown_ms cfg)"
  by (simp add: in_cooldown_def init_monitor_def)

lemma f64_sub_ge_int:
  assumes "\<bar>c\<bar> \<le> 2 ^ 53" "of_int c \<le> x - y"
  shows "of_int c \<le> f64_sub x y"
proof -
  have "round_f64 (of_int c) \<le> round_f64 (x - y)" using assms(2) by (rule round_f64_mono)
  then show ?thesis using round_f64_of_int [OF assms(1)] by (simp add: f64_sub_def)
qed

lemma press_key_all_last_trigger_time:
  "last_trigger_time (press_key_all ts kb s) =
     last (last_trigger_time s #
           debounce (cooldown_ms (config s)) (last_trigger_time s)
             (map (\<lambda>t. f64_mul t 1000) ts))"
proof (induction ts arbitrary: s)
  case Nil
  then show ?case by simp
next
  case (Cons t ts)
  show ?case
  proof (cases "in_cooldown t s")
    case True
    then have "press_key t kb s = s" by (rule press_key_dropped)
    moreover have "\<not> of_int (cooldown_ms (config s)) \<le> f64_sub (f64_mul t 1000) (last_trigger_time s)"
      using True by (simp add: in_cooldown_def)
    ultimately show ?thesis using Cons.IH [of s] by simp
  next
    case False
    then have lt: "last_trigger_time (press_key t kb s) = f64_mul t 1000"
      by (rule press_key_accepted_time)
    have "of_int (cooldown_ms (config s)) \<le> f64_sub (f64_mul t 1000) (last_trigger_time s)"
      using False by (simp add: in_cooldown_def)
    then show ?thesis using Cons.IH [of "press_key t kb s"] lt by simp
  qed
qed

lemma press_key_all_trigger_count:
  assumes "press_delay_ms (config s) \<le> 0" "\<forall>k. kb k = Succeeds"
  shows "trigger_count (press_key_all ts kb s) =
     trigger_count s +
     int (length (debounce (cooldown_ms (config s)) (last_trigger_time s)
                    (map (\<lambda>t. f64_mul t 1000) ts)))"
  using assms(1)
proof (induction ts arbitrary: s)
  case Nil
  then show ?case by simp
next
  case (Cons t ts)
  show ?case
  proof (cases "in_cooldown t s")
    case True
    then have "press_key t kb s = s" by (rule press_key_dropped)
    moreover have "\<not> of_int (cooldown_ms (config s)) \<le> f64_sub (f64_mul t 1000) (last_trigger_time s)"
      using True by (simp add: in_cooldown_def)
    ultimately show ?thesis using Cons.IH [of s] Cons.prems by simp
  next
    case False
    have pk: "press_key t kb s = execute_press kb (s\<lparr>last_trigger_time := f64_mul t 1000\<rparr>)"
      using False Cons.prems by (rule press_key_inline)
    have tc: "trigger_count (press_key t kb s) = trigger_count s + 1"
      using assms(2) by (simp add: pk trigger_count_execute_press)
    have lt: "last_trigger_time (press_key t kb s) = f64_mul t 1000"
      using False by (rule press_key_accepted_time)
    have "of_int (cooldown_ms (config s)) \<le> f64_sub (f64_mul t 1000) (last_trigger_time s)"
      using False by (simp add: in_cooldown_def)
    then show ?thesis using Cons.IH [of "press_key t kb s"] Cons.prems lt tc by simp
  qed
qed


text \<open>
  C2, as stated, fails on the first invocation: \<open>last_trigger_time\<close> starts at 0, so the
  first invocation is compared with the epoch. With a cooldown of \<open>10 ^ 13\<close> ms and the
  clock at 1.7 billion seconds it is dropped.
\<close>

theorem first_invocation_dropped:
  "in_cooldown 1700000000
     (init_monitor (default_settings\<lparr>cooldown_ms := 10000000000000\<rparr>) 1700000000) \<and>
   press_key 1700000000 working_keyboard
     (init_monitor (default_settings\<lparr>cooldown_ms := 10000000000000\<rparr>) 1700000000)
   = init_monitor (default_settings\<lparr>cooldown_ms := 10000000000000\<rparr>) 1700000000 \<and>
   trigger_count (press_key 1700000000 working_keyboard
     (init_monitor (default_settings\<lparr>cooldown_ms := 10000000000000\<rparr>) 1700000000)) = 0 \<and>
   last_trigger_time (press_key 1700000000 working_keyboard
     (init_monitor (default_settings\<lparr>cooldown_ms := 10000000000000\<rparr>) 1700000000)) = 0"
proof -
  have c: "in_cooldown 1700000000
     (init_monitor (default_settings\<lparr>cooldown_ms := 10000000000000\<rparr>) 1700000000)"
    by (simp add: first_invocation_accepted_iff f64_mul_def)
  then show ?thesis by (simp add: press_key_dropped) (simp add: init_monitor_def)
qed

text \<open>
  C2, amended: an invocation is dropped exactly when the difference between its timestamp
  and \<open>last_trigger_time\<close>, computed in double precision, is below the cooldown;
  \<open>last_trigger_time\<close> is 0 until the first acceptance, so the first invocation is accepted
  exactly when its own timestamp is at least the cooldown. A dropped invocation leaves the
  state as it is. An accepted one sets \<open>last_trigger_time\<close> at once, also when the key action
  is only scheduled. An exact difference of at least the cooldown is always accepted. Over
  a sequence of invocations the accepted ones are those the debounce rule selects.
\<close>

theorem debounce_rule:
  "(in_cooldown now s \<longleftrightarrow>
      f64_sub (f64_mul now 1000) (last_trigger_time s) < of_int (cooldown_ms (config s))) \<and>
   last_trigger_time (init_monitor cfg t0) = 0 \<and>
   (in_cooldown now (init_monitor cfg t0) \<longleftrightarrow> f64_mul now 1000 < of_int (cooldown_ms cfg)) \<and>
   (in_cooldown now s \<longrightarrow> press_key now kb s = s) \<and>
   (\<not> in_cooldown now s \<longrightarrow> last_trigger_time (press_key now kb s) = f64_mul now 1000) \<and>
   (\<not> in_cooldown now s \<and> 0 < press_delay_ms (config s) \<longrightarrow>
      press_key now kb s =
        s\<lparr>last_trigger_time := f64_mul now 1000,
          timers := timers s @ [f64_div (f64_of_int (press_delay_ms (config s))) 1000],
          events := events s
            @ [StartTimer (f64_div (f64_of_int (press_delay_ms (config s))) 1000)]\<rparr>) \<and>
   (\<bar>cooldown_ms (config s)\<bar> \<le> 2 ^ 53 \<and>
    of_int (cooldown_ms (config s)) \<le> f64_mul now 1000 - last_trigger_time s \<longrightarrow>
      \<not> in_cooldown now s) \<and>
   last_trigger_time (press_key_all ts kb s) =
     last (last_trigger_time s #
           debounce (cooldown_ms (config s)) (last_trigger_time s)
             (map (\<lambda>t. f64_mul t 1000) ts)) \<and>
   (press_delay_ms (config s) \<le> 0 \<and> (\<forall>k. kb k = Succeeds) \<longrightarrow>
      trigger_count (press_key_all ts kb s) =
        trigger_count s +
        int (length (debounce (cooldown_ms (config s)) (last_trigger_time s)
                       (map (\<lambda>t. f64_mul t 1000) ts))))"
proof -
  have a: "\<not> in_cooldown now s"
    if "\<bar>cooldown_ms (config s)\<bar> \<le> 2 ^ 53 \<and>
        of_int (cooldown_ms (config s)) \<le> f64_mul now 1000 - last_trigger_time s"
    using that f64_sub_ge_int [of "cooldown_ms (config s)" "f64_mul now 1000" "last_trigger_time s"]
    by (simp add: in_cooldown_def)
  have b: "last_trigger_time (init_monitor cfg t0) = 0" by (simp add: init_monitor_def)
  show ?thesis
    using a b press_key_dropped [of now s kb] press_key_accepted_time [of now s kb]
      press_key_scheduled [of now s kb] first_invocation_accepted_iff [of now cfg t0]
      press_key_all_last_trigger_time [of ts kb s]
      press_key_all_trigger_count [of s kb ts]
    by (simp add: in_cooldown_def)
qed


theorem debounce_rule_witness:
  "in_cooldown (1700000000 + 1 / 32)
     ((init_monitor default_settings 0)\<lparr>last_trigger_time := 1700000000000\<rparr>) \<and>
   press_key (1700000000 + 1 / 32) working_keyboard
     ((init_monitor default_settings 0)\<lparr>last_trigger_time := 1700000000000\<rparr>)
   = (init_monitor default_settings 0)\<lparr>last_trigger_time := 1700000000000\<rparr> \<and>
   \<not> in_cooldown 1700000000 (init_monitor (default_settings\<lparr>press_delay_ms := 50\<rparr>) 0) \<and>
   0 < press_delay_ms (config (init_monitor (default_settings\<lparr>press_delay_ms := 50\<rparr>) 0)) \<and>
   last_trigger_time (press_key 1700000000 working_keyboard
       (init_monitor (default_settings\<lparr>press_delay_ms := 50\<rparr>) 0))
     = f64_mul 1700000000 1000 \<and>
   trigger_count (press_key 1700000000 working_keyboard
       (init_monitor (default_settings\<lparr>press_delay_ms := 50\<rparr>) 0)) = 0 \<and>
   \<bar>cooldown_ms (config (init_monitor default_settings 0))\<bar> \<le> 2 ^ 53 \<and>
   of_int (cooldown_ms (config (init_monitor default_settings 0)))
     \<le> f64_mul 1700000000 1000 - last_trigger_time (init_monitor default_settings 0) \<and>
   \<not> in_cooldown 1700000000 (init_monitor default_settings 0) \<and>
   press_delay_ms (config (init_monitor default_settings 0)) \<le> 0 \<and>
   trigger_count
     (press_key_all [1700000000, 1700000000 + 1 / 32, 1700000000 + 1 / 4] working_keyboard
        (init_monitor default_settings 0)) = 2"
proof -
  define s1 where "s1 = (init_monitor default_settings 0)\<lparr>last_trigger_time := 1700000000000\<rparr>"
  define s50 where "s50 = init_monitor (default_settings\<lparr>press_delay_ms := 50\<rparr>) 0"
  define s0 where "s0 = init_monitor default_settings 0"
  have ms: "f64_mul (1700000000 + 1 / 32) 1000 = 1700000000000 + 125 / 4"
    "f64_mul 1700000000 1000 = 1700000000000"
    by code_simp+
  have df: "f64_sub (1700000000000 + 125 / 4) 1700000000000 = 125 / 4"
    by code_simp
  have h1: "in_cooldown (1700000000 + 1 / 32) s1"
    unfolding s1_def by code_simp
  note c1 = debounce_rule [where now = "1700000000 + 1 / 32" and s = s1
      and kb = working_keyboard,
      THEN conjunct2, THEN conjunct2, THEN conjunct2, THEN conjunct1, rule_format, OF h1]
  have h2: "\<not> in_cooldown 1700000000 s50"
    unfolding s50_def by (rule not_in_cooldown_example)
  have h2': "0 < press_delay_ms (config s50)"
    by (simp add: s50_def init_monitor_def)
  note c2 = debounce_rule [where now = 1700000000 and s = s50 and kb = working_keyboard,
      THEN conjunct2, THEN conjunct2, THEN conjunct2, THEN conjunct2, THEN conjunct1,
      rule_format, OF h2]
  note c3 = debounce_rule [where now = 1700000000 and s = s50 and kb = working_keyboard,
      THEN conjunct2, THEN conjunct2, THEN conjunct2, THEN conjunct2, THEN conjunct2,
      THEN conjunct1, rule_format, OF conjI, OF h2 h2']
  have c3': "trigger_count (press_key 1700000000 working_keyboard s50) = 0"
    unfolding c3 by (simp add: s50_def init_monitor_def)
  have h4: "\<bar>cooldown_ms (config s0)\<bar> \<le> 2 ^ 53"
    by (simp add: s0_def init_monitor_def default_settings_def)
  have h4': "of_int (cooldown_ms (config s0)) \<le> f64_mul 1700000000 1000 - last_trigger_time s0"
    by (simp add: s0_def init_monitor_def default_settings_def ms)
  note c4 = debounce_rule [where now = 1700000000 and s = s0,
      THEN conjunct2, THEN conjunct2, THEN conjunct2, THEN conjunct2, THEN conjunct2,
      THEN conjunct2, THEN conjunct1, rule_format, OF conjI, OF h4 h4']
  have h5: "press_delay_ms (config s0) \<le> 0 \<and> (\<forall>k. working_keyboard k = Succeeds)"
    by (simp add: s0_def init_monitor_def default_settings_def working_keyboard_def)
  note c5 = debounce_rule [where s = s0 and kb = working_keyboard
      and ts = "[1700000000, 1700000000 + 1 / 32, 1700000000 + 1 / 4]",
      THEN conjunct2, THEN conjunct2, THEN conjunct2, THEN conjunct2, THEN conjunct2,
      THEN conjunct2, THEN conjunct2, THEN conjunct2, rule_format, OF h5]
  have d: "debounce 100 0 (map (\<lambda>t. f64_mul t 1000)
             [1700000000, 1700000000 + 1 / 32, 1700000000 + 1 / 4])
           = [1700000000000, 1700000000250]"
    by code_simp
  have s0: "cooldown_ms (config s0) = 100" "last_trigger_time s0 = 0" "trigger_count s0 = 0"
    by (simp_all add: s0_def init_monitor_def default_settings_def)
  have "trigger_count
     (press_key_all [1700000000, 1700000000 + 1 / 32, 1700000000 + 1 / 4] working_keyboard s0)
     = 0 + int (length [1700000000000 :: rat, 1700000000250])"
    by (simp only: c5 s0 d)
  then have c5': "trigger_count
     (press_key_all [1700000000, 1700000000 + 1 / 32, 1700000000 + 1 / 4] working_keyboard s0) = 2"
    by simp
  show ?thesis
    using h1 c1 h2 h2' c2 c3' h4 h4' c4 h5 [THEN conjunct1] c5'
    unfolding s1_def s50_def s0_def
    by (intro conjI)
qed

section \<open>The merge with the defaults\<close>

lemma is_dict_iff: "is_dict j \<longleftrightarrow> (\<exists>kvs. j = JObj kvs)"
  by (cases j) simp_all

lemma backfill_group_dict:
  assumes "map_of kvs key = Some (JObj sub)"
  shows "\<exists>kvs' sub'.
           backfill_group key items (JObj kvs) = Inr (JObj kvs') \<and>
           map_of kvs' = (map_of kvs)(key \<mapsto> JObj sub') \<and>
           fills items sub sub'"
  using assms
proof (induction items arbitrary: kvs sub)
  case Nil
  have "map_of kvs = (map_of kvs)(key \<mapsto> JObj sub)"
    using Nil by (simp add: fun_upd_idem)
  moreover have "fills [] sub sub"
    by (simp add: fills_def split: option.splits)
  moreover have "backfill_group key [] (JObj kvs) = Inr (JObj kvs)" by simp
  ultimately show ?case by blast
next
  case (Cons item rest)
  obtain sk sv where item: "item = (sk, sv)" by (cases item)
  show ?case
  proof (cases "map_of sub sk")
    case (Some v)
    from Cons.IH [OF Cons.prems] obtain kvs' sub' where
      r: "backfill_group key rest (JObj kvs) = Inr (JObj kvs')"
        "map_of kvs' = (map_of kvs)(key \<mapsto> JObj sub')"
        "fills rest sub sub'"
      by blast
    have "backfill_group key (item # rest) (JObj kvs) = Inr (JObj kvs')"
      using Cons.prems Some r(1) by (simp add: item)
    moreover have "fills (item # rest) sub sub'"
      using r(3) Some by (auto simp: fills_def item split: option.splits)
    ultimately show ?thesis using r(2) by blast
  next
    case None
    define sub1 where "sub1 = AList.update sk sv sub"
    define kvs1 where "kvs1 = AList.update key (JObj sub1) kvs"
    have m1: "map_of kvs1 = (map_of kvs)(key \<mapsto> JObj sub1)"
      by (simp add: kvs1_def update_conv')
    then have p1: "map_of kvs1 key = Some (JObj sub1)" by simp
    from Cons.IH [OF p1] obtain kvs' sub' where
      r: "backfill_group key rest (JObj kvs1) = Inr (JObj kvs')"
        "map_of kvs' = (map_of kvs1)(key \<mapsto> JObj sub')"
        "fills rest sub1 sub'"
      by blast
    have "backfill_group key (item # rest) (JObj kvs) = Inr (JObj kvs')"
      using Cons.prems None r(1) by (simp add: item sub1_def kvs1_def)
    moreover have "map_of kvs' = (map_of kvs)(key \<mapsto> JObj sub')"
      using r(2) m1 by simp
    moreover have "fills (item # rest) sub sub'"
      using r(3) None by (auto simp: fills_def item sub1_def update_conv' split: option.splits)
    ultimately show ?thesis by blast
  qed
qed

lemma backfill_step:
  assumes "is_dict d \<longrightarrow> (case map_of kvs key of None \<Rightarrow> True | Some v \<Rightarrow> is_dict v)"
  shows "\<exists>kvs1.
           backfill ((key, d) # rest) (JObj kvs) = backfill rest (JObj kvs1) \<and>
           (\<forall>k. k \<noteq> key \<longrightarrow> map_of kvs1 k = map_of kvs k) \<and>
           entry_backfilled (Some d) (map_of kvs key) (map_of kvs1 key)"
proof (cases "map_of kvs key")
  case None
  define kvs1 where "kvs1 = AList.update key d kvs"
  have m: "map_of kvs1 = (map_of kvs)(key \<mapsto> d)" by (simp add: kvs1_def update_conv')
  have "backfill ((key, d) # rest) (JObj kvs) = backfill rest (JObj kvs1)"
    using None by (simp add: kvs1_def)
  moreover have "\<forall>k. k \<noteq> key \<longrightarrow> map_of kvs1 k = map_of kvs k" by (simp add: m)
  moreover have "entry_backfilled (Some d) (map_of kvs key) (map_of kvs1 key)"
    using None by (simp add: entry_backfilled_def m)
  ultimately show ?thesis by blast
next
  case (Some v)
  show ?thesis
  proof (cases "is_dict d")
    case False
    then have "backfill ((key, d) # rest) (JObj kvs) = backfill rest (JObj kvs)"
      using Some by (cases d) simp_all
    moreover have "entry_backfilled (Some d) (map_of kvs key) (map_of kvs key)"
      using False Some by (simp add: entry_backfilled_def)
    ultimately show ?thesis by blast
  next
    case True
    then obtain items where d: "d = JObj items" by (auto simp: is_dict_iff)
    from assms True Some obtain sub where v: "v = JObj sub" by (auto simp: is_dict_iff)
    from backfill_group_dict [of kvs key sub items] Some v obtain kvs1 sub' where
      r: "backfill_group key items (JObj kvs) = Inr (JObj kvs1)"
        "map_of kvs1 = (map_of kvs)(key \<mapsto> JObj sub')"
        "fills items sub sub'"
      by blast
    have "backfill ((key, d) # rest) (JObj kvs) = backfill rest (JObj kvs1)"
      using Some r(1) by (simp add: d)
    moreover have "\<forall>k. k \<noteq> key \<longrightarrow> map_of kvs1 k = map_of kvs k" by (simp add: r(2))
    moreover have "entry_backfilled (Some d) (map_of kvs key) (map_of kvs1 key)"
      using r(3) by (simp add: entry_backfilled_def Some v d r(2))
    ultimately show ?thesis by blast
  qed
qed

lemma backfill_dict:
  assumes "distinct (map fst ds)" "config_record ds (JObj kvs)"
  shows "\<exists>kvs'.
           backfill ds (JObj kvs) = Inr (JObj kvs') \<and>
           (\<forall>k. entry_backfilled (map_of ds k) (map_of kvs k) (map_of kvs' k))"
  using assms
proof (induction ds arbitrary: kvs)
  case Nil
  then show ?case by (simp add: entry_backfilled_def)
next
  case (Cons item rest)
  obtain key d where item: "item = (key, d)" by (cases item)
  have fresh: "map_of rest key = None"
    using Cons.prems(1) by (simp add: item map_of_eq_None_iff)
  have dist: "distinct (map fst rest)" using Cons.prems(1) by simp
  have hyp: "is_dict d \<longrightarrow> (case map_of kvs key of None \<Rightarrow> True | Some v \<Rightarrow> is_dict v)"
    using Cons.prems(2) by (simp add: config_record_def item)
  from backfill_step [OF hyp, of rest] obtain kvs1 where
    s: "backfill ((key, d) # rest) (JObj kvs) = backfill rest (JObj kvs1)"
      "\<forall>k. k \<noteq> key \<longrightarrow> map_of kvs1 k = map_of kvs k"
      "entry_backfilled (Some d) (map_of kvs key) (map_of kvs1 key)"
    by blast
  have rec: "config_record rest (JObj kvs1)"
  proof -
    have "case map_of kvs1 g of None \<Rightarrow> True | Some v \<Rightarrow> is_dict v"
      if "(g, e) \<in> set rest" "is_dict e" for g e
    proof -
      have "g \<in> fst ` set rest" using that(1) by force
      then have "g \<noteq> key" using fresh by (auto simp: map_of_eq_None_iff)
      then have "map_of kvs1 g = map_of kvs g" using s(2) by simp
      moreover have "case map_of kvs g of None \<Rightarrow> True | Some v \<Rightarrow> is_dict v"
        using Cons.prems(2) that by (auto simp: config_record_def)
      ultimately show ?thesis by simp
    qed
    then show ?thesis by (auto simp: config_record_def)
  qed
  from Cons.IH [OF dist rec] obtain kvs' where
    r: "backfill rest (JObj kvs1) = Inr (JObj kvs')"
      "\<forall>k. entry_backfilled (map_of rest k) (map_of kvs1 k) (map_of kvs' k)"
    by blast
  have "map_of kvs' key = map_of kvs1 key"
    using r(2) [rule_format, of key] fresh by (simp add: entry_backfilled_def)
  then have at_key: "entry_backfilled (Some d) (map_of kvs key) (map_of kvs' key)"
    using s(3) by simp
  have "entry_backfilled (map_of (item # rest) k) (map_of kvs k) (map_of kvs' k)" for k
  proof (cases "k = key")
    case True
    then show ?thesis using at_key by (simp add: item)
  next
    case False
    then show ?thesis using r(2) [rule_format, of k] s(2) by (simp add: item)
  qed
  moreover have "backfill (item # rest) (JObj kvs) = Inr (JObj kvs')"
    using s(1) r(1) by (simp only: item)
  ultimately show ?case by blast
qed


lemma distinct_default_config: "distinct (map fst default_config)"
  by (simp add: default_config_def)

text \<open>
  C4: for every loaded configuration record, \<open>load_config\<close> returns a record in which
  every key absent from the file has its default, every key present keeps its value, and
  inside the groups \<open>monitor_region\<close> and \<open>target_color\<close> every absent key has its
  default and every present key keeps its value. The file is not rewritten.
\<close>

theorem load_config_backfills:
  assumes "config_record default_config loaded"
  shows "\<exists>merged.
           load_config w (Holds loaded) = (Inr merged, Holds loaded) \<and>
           is_dict merged \<and>
           (\<forall>k. member loaded k = None \<longrightarrow> member merged k = map_of default_config k) \<and>
           (\<forall>k v. member loaded k = Some v \<longrightarrow>
              \<not> (case map_of default_config k of None \<Rightarrow> False | Some d \<Rightarrow> is_dict d) \<longrightarrow>
              member merged k = Some v) \<and>
           (\<forall>g d. map_of default_config g = Some d \<longrightarrow> is_dict d \<longrightarrow>
              (\<exists>grp. member merged g = Some grp \<and> is_dict grp) \<and>
              (\<forall>k. nested_member merged g k =
                 (case nested_member loaded g k of Some v \<Rightarrow> Some v | None \<Rightarrow> member d k)))"
proof -
  from assms obtain kvs where l: "loaded = JObj kvs"
    by (auto simp: config_record_def is_dict_iff)
  from backfill_dict [OF distinct_default_config assms [unfolded l]] obtain kvs' where
    r: "backfill default_config (JObj kvs) = Inr (JObj kvs')"
      "\<forall>k. entry_backfilled (map_of default_config k) (map_of kvs k) (map_of kvs' k)"
    by blast
  note e = r(2) [rule_format]
  have a: "load_config w (Holds loaded) = (Inr (JObj kvs'), Holds loaded)"
    by (simp add: load_config_def open_and_load_def l r(1))
  have b: "member (JObj kvs') k = map_of default_config k" if "member loaded k = None" for k
    using e [of k] that by (auto simp: entry_backfilled_def l split: option.splits)
  have c: "member (JObj kvs') k = Some v"
    if "member loaded k = Some v"
      "\<not> (case map_of default_config k of None \<Rightarrow> False | Some d \<Rightarrow> is_dict d)" for k v
    using e [of k] that by (auto simp: entry_backfilled_def l split: option.splits)
  have d: "(\<exists>grp. member (JObj kvs') g = Some grp \<and> is_dict grp) \<and>
      (\<forall>k. nested_member (JObj kvs') g k =
         (case nested_member loaded g k of Some v \<Rightarrow> Some v | None \<Rightarrow> member d k))"
    if gd: "map_of default_config g = Some d" "is_dict d" for g d
  proof (cases "map_of kvs g")
    case None
    then have "map_of kvs' g = Some d" using e [of g] gd by (simp add: entry_backfilled_def)
    then show ?thesis using gd(2) None by (simp add: nested_member_def l)
  next
    case (Some v)
    then obtain items sub sub' where
      f: "d = JObj items" "v = JObj sub" "map_of kvs' g = Some (JObj sub')" "fills items sub sub'"
      using e [of g] gd by (auto simp: entry_backfilled_def)
    show ?thesis using f Some
      by (auto simp: nested_member_def l fills_def split: option.splits)
  qed
  show ?thesis
    using a b c d by (intro exI [of _ "JObj kvs'"]) simp
qed


text \<open>A file with two keys, one of them a group with one key.\<close>

lemma load_config_example:
  "load_config w (Holds (JObj [(''cooldown_ms'', JInt 250),
                               (''target_color'', JObj [(''r'', JInt 7)])]))
   = (Inr (JObj [(''cooldown_ms'', JInt 250),
                 (''target_color'', JObj [(''r'', JInt 7), (''g'', JInt 0), (''b'', JInt 0)]),
                 (''monitor_region'', JObj [(''left'', JInt 100), (''top'', JInt 100),
                                            (''width'', JInt 200), (''height'', JInt 200)]),
                 (''color_tolerance'', JInt 30),
                 (''threshold_percentage'', JFloat 10),
                 (''press_key'', JStr ''e''),
                 (''press_delay_ms'', JInt 0),
                 (''check_interval_ms'', JInt 10),
                 (''hotkey_start_stop'', JStr ''f9''),
                 (''hotkey_pause_resume'', JStr ''f10''),
                 (''hotkey_screenshot'', JStr ''f8'')]),
      Holds (JObj [(''cooldown_ms'', JInt 250),
                   (''target_color'', JObj [(''r'', JInt 7)])]))"
  by (simp add: load_config_def open_and_load_def default_config_def)

theorem load_config_backfills_witness:
  "config_record default_config
     (JObj [(''cooldown_ms'', JInt 250), (''target_color'', JObj [(''r'', JInt 7)])]) \<and>
   (\<exists>merged.
      load_config Written (Holds (JObj [(''cooldown_ms'', JInt 250),
                                        (''target_color'', JObj [(''r'', JInt 7)])]))
        = (Inr merged, Holds (JObj [(''cooldown_ms'', JInt 250),
                                    (''target_color'', JObj [(''r'', JInt 7)])])) \<and>
      member merged ''color_tolerance'' = Some (JInt 30) \<and>
      member merged ''cooldown_ms'' = Some (JInt 250) \<and>
      nested_member merged ''target_color'' ''r'' = Some (JInt 7) \<and>
      nested_member merged ''target_color'' ''g'' = Some (JInt 0) \<and>
      nested_member merged ''monitor_region'' ''width'' = Some (JInt 200))"
proof -
  define loaded where "loaded =
    JObj [(''cooldown_ms'', JInt 250), (''target_color'', JObj [(''r'', JInt 7)])]"
  have rec: "config_record default_config loaded"
    by (simp add: config_record_def default_config_def loaded_def)
  from load_config_backfills [OF rec, of Written] obtain merged where
    m: "load_config Written (Holds loaded) = (Inr merged, Holds loaded)"
      "\<forall>k. member loaded k = None \<longrightarrow> member merged k = map_of default_config k"
      "\<forall>k v. member loaded k = Some v \<longrightarrow>
              \<not> (case map_of default_config k of None \<Rightarrow> False | Some d \<Rightarrow> is_dict d) \<longrightarrow>
              member merged k = Some v"
      "\<forall>g d. map_of default_config g = Some d \<longrightarrow> is_dict d \<longrightarrow>
              (\<exists>grp. member merged g = Some grp \<and> is_dict grp) \<and>
              (\<forall>k. nested_member merged g k =
                 (case nested_member loaded g k of Some v \<Rightarrow> Some v | None \<Rightarrow> member d k))"
    by blast
  have c1: "member merged ''color_tolerance'' = Some (JInt 30)"
    using m(2) [rule_format, of "''color_tolerance''"]
    by (simp add: loaded_def default_config_def)
  have c2: "member merged ''cooldown_ms'' = Some (JInt 250)"
    using m(3) [rule_format, of "''cooldown_ms''" "JInt 250"]
    by (simp add: loaded_def default_config_def)
  note g1 = m(4) [rule_format, of "''target_color''"
      "JObj [(''r'', JInt 255), (''g'', JInt 0), (''b'', JInt 0)]", THEN conjunct2, rule_format]
  note g2 = m(4) [rule_format, of "''monitor_region''"
      "JObj [(''left'', JInt 100), (''top'', JInt 100),
             (''width'', JInt 200), (''height'', JInt 200)]", THEN conjunct2, rule_format]
  have c3: "nested_member merged ''target_color'' ''r'' = Some (JInt 7)"
    using g1 [of "''r''"] by (simp add: loaded_def default_config_def nested_member_def)
  have c4: "nested_member merged ''target_color'' ''g'' = Some (JInt 0)"
    using g1 [of "''g''"] by (simp add: loaded_def default_config_def nested_member_def)
  have c5: "nested_member merged ''monitor_region'' ''width'' = Some (JInt 200)"
    using g2 [of "''width''"] by (simp add: loaded_def default_config_def nested_member_def)
  show ?thesis
    using rec m(1) c1 c2 c3 c4 c5 unfolding loaded_def by blast
qed

text \<open>
  C5, as stated, fails in two ways. A file whose bytes are not UTF-8 is not parseable as
  JSON, but \<open>json.load\<close> rejects it with \<open>UnicodeDecodeError\<close>, which the \<open>except\<close>
  clause does not name: the exception reaches the caller. And when the file is absent and
  the write of the defaults raises, that exception leaves the handler.
\<close>

theorem load_config_fatal:
  "load_config Written (Unreadable UnicodeDecodeError)
     = (Inl UnicodeDecodeError, Unreadable UnicodeDecodeError) \<and>
   load_config (WriteRaises PermissionError Absent) Absent = (Inl PermissionError, Absent)"
  by (simp add: load_config_def open_and_load_def save_config_def)

text \<open>
  C5, amended: when \<open>config.json\<close> is absent, or \<open>json.load\<close> rejects its text with
  \<open>JSONDecodeError\<close>, \<open>load_config\<close> writes the defaults out at once and, when that
  write goes through, returns the defaults, with the file then holding them. The error
  that was caught never reaches the caller: an exception that leaves \<open>load_config\<close> on
  this path is one the write raised.
\<close>

theorem load_config_defaults:
  assumes "f = Absent \<or> f = Unreadable JSONDecodeError"
  shows "load_config Written f = (Inr (JObj default_config), Holds (JObj default_config)) \<and>
         open_and_load (snd (load_config Written f)) = Inr (JObj default_config) \<and>
         (\<forall>e. fst (load_config w f) = Inl e \<longrightarrow> (\<exists>f'. w = WriteRaises e f'))"
  using assms
  by (cases w) (auto simp: load_config_def open_and_load_def save_config_def)

theorem load_config_defaults_witness:
  "load_config Written Absent = (Inr (JObj default_config), Holds (JObj default_config)) \<and>
   load_config Written (Unreadable JSONDecodeError)
     = (Inr (JObj default_config), Holds (JObj default_config)) \<and>
   fst (load_config (WriteRaises OSError Absent) Absent) = Inl OSError \<and>
   (\<exists>f'. WriteRaises OSError Absent = WriteRaises OSError f')"
proof -
  have h: "fst (load_config (WriteRaises OSError Absent) Absent) = Inl OSError"
    by (simp add: load_config_def open_and_load_def save_config_def)
  note t = load_config_defaults [of Absent "WriteRaises OSError Absent", OF disjI1, OF refl]
  show ?thesis
    using t [THEN conjunct1]
      load_config_defaults [of "Unreadable JSONDecodeError" Written, OF disjI2, OF refl,
        THEN conjunct1]
      h t [THEN conjunct2, THEN conjunct2, rule_format, OF h]
    by (intro conjI)
qed

end
